theory Spec2Isabelle
  imports Main "HOL-Library.Char_ord" "HOL-Library.List_Lexorder"
    "HOL-Library.Product_Lexorder" "HOL-Library.AList"
begin

section \<open>HTTP: responses, errors and the trace of effects\<close>

text \<open>
  The network is the only input of the fetch helpers. One call of a helper sees a
  sequence of outcomes, one per GET it issues: the outcome of the \<open>k\<close>-th GET
  (counted from 0) is \<open>srv k\<close>. An outcome is a response with its status code and
  its body, or a transport-level failure (\<open>requests\<close> raises: connection reset,
  timeout). The body is the decoded JSON when there is one.
\<close>

datatype 'b http_result = Response int "'b option" | Transport_Failure

text \<open>
  The exceptions of the source, as values.
  \<^item> \<open>HTTPError s\<close>: \<open>requests\<close>' \<open>raise_for_status\<close> on status \<open>s\<close>;
  \<^item> \<open>RuntimeError_HTTP s\<close>: SiMEM's \<open>RuntimeError(f"HTTP {r.status_code}: ...")\<close>;
  \<^item> \<open>ConnectionError\<close>: the exception of a transport-level failure;
  \<^item> \<open>TypeError_raise_None\<close>: Python's \<open>raise None\<close>;
  \<^item> \<open>ValueError_sleep\<close>: \<open>time.sleep\<close> of a negative length;
  \<^item> \<open>JSONDecodeError\<close>: \<open>r.json()\<close> on a body that is not JSON;
  \<^item> \<open>ValueError_no_query\<close>, \<open>RuntimeError_no_studies\<close>: the two raises of
    \<open>run_extraction\<close> before its loop;
  \<^item> \<open>ParseError\<close>: an exception out of \<open>parse_study\<close> or \<open>parse_variables\<close>;
  \<^item> \<open>ValueError_date\<close>: \<open>pd.to_datetime\<close> of a scalar that is no date;
  \<^item> \<open>OutOfBoundsDatetime\<close>: pandas' exception for a timestamp out of the range of
    64-bit nanoseconds;
  \<^item> \<open>ValueError_duplicate_keys\<close>: \<open>pd.to_datetime\<close> of a data frame whose column
    names are not unique;
  \<^item> \<open>AttributeError_dt\<close>, \<open>AttributeError_str\<close>: the accessor \<open>.dt\<close> on a column
    that holds no datetimes, the accessor \<open>.str\<close> on a data frame;
  \<^item> \<open>TypeError_tz\<close>: a comparison of a timestamp with time zone and one without.
\<close>

datatype error =
    HTTPError int
  | RuntimeError_HTTP int
  | ConnectionError
  | TypeError_raise_None
  | ValueError_sleep
  | JSONDecodeError
  | ValueError_no_query
  | RuntimeError_no_studies
  | ParseError
  | ValueError_date
  | OutOfBoundsDatetime
  | ValueError_duplicate_keys
  | AttributeError_dt
  | AttributeError_str
  | TypeError_tz

text \<open>
  What a helper does besides returning: the number of GETs issued and the lengths of its
  \<open>time.sleep\<close> calls, in seconds and in call order.
\<close>

record trace =
  gets :: nat
  sleeps :: "int list"

definition trace0 :: trace where
  "trace0 = \<lparr>gets = 0, sleeps = []\<rparr>"

definition issue_get :: "trace \<Rightarrow> trace" where
  "issue_get tr = tr\<lparr>gets := Suc (gets tr)\<rparr>"

definition sleep :: "int \<Rightarrow> trace \<Rightarrow> trace" where
  "sleep d tr = tr\<lparr>sleeps := sleeps tr @ [d]\<rparr>"

subsection \<open>Dane: \<open>_retry_get\<close>\<close>

text \<open>
  \<^verbatim>\<open>
  def _retry_get(session, url, **kwargs):
      """GET con reintentos simples (429/5xx)."""
      backoff = 1.0
      for attempt in range(5):
          r = session.get(url, timeout=..., params=...)
          if r.status_code < 400:
              return r
          if r.status_code in (429, 500, 502, 503, 504):
              LOG.warning(...)
              time.sleep(backoff)
              backoff *= 2
              continue
          r.raise_for_status()
      r.raise_for_status()
      return r  # no llega
  \<close>
  \<open>session.get\<close> stands in no \<open>try\<close>: a transport failure leaves the function at
  once. The warning of the logger is left out. \<open>raise_for_status\<close> raises for a status from 400 to 599 and returns for any
  other. The backoff is the float 1.0 doubled; its values are whole numbers of seconds,
  which floats hold exactly, so it is an \<open>int\<close> here.
\<close>

definition retryable :: "int \<Rightarrow> bool" where
  "retryable s = (s = 429 \<or> s = 500 \<or> s = 502 \<or> s = 503 \<or> s = 504)"

definition raises_for_status :: "int \<Rightarrow> bool" where
  "raises_for_status s = (400 \<le> s \<and> s < 600)"

text \<open>
  The loop, by the number of iterations left. \<open>r_last\<close> is the variable \<open>r\<close> as the
  code after the loop sees it.
\<close>

fun retry_get_loop ::
  "(nat \<Rightarrow> 'b http_result) \<Rightarrow> nat \<Rightarrow> int \<Rightarrow> (int \<times> 'b option) option \<Rightarrow> trace
    \<Rightarrow> (error + int \<times> 'b option) \<times> trace" where
  "retry_get_loop srv 0 backoff r_last tr =
     (case r_last of
        None \<Rightarrow> (Inl TypeError_raise_None, tr)
      | Some (s, b) \<Rightarrow> (if raises_for_status s then Inl (HTTPError s) else Inr (s, b), tr))"
| "retry_get_loop srv (Suc n) backoff r_last tr =
     (case srv (gets tr) of
        Transport_Failure \<Rightarrow> (Inl ConnectionError, issue_get tr)
      | Response s b \<Rightarrow>
          if s < 400 then (Inr (s, b), issue_get tr)
          else if retryable s then
            retry_get_loop srv n (backoff * 2) (Some (s, b)) (sleep backoff (issue_get tr))
          else if raises_for_status s then (Inl (HTTPError s), issue_get tr)
          else retry_get_loop srv n backoff (Some (s, b)) (issue_get tr))"

definition retry_get :: "(nat \<Rightarrow> 'b http_result) \<Rightarrow> (error + int \<times> 'b option) \<times> trace" where
  "retry_get srv = retry_get_loop srv 5 1 None trace0"

subsection \<open>SiMEM: \<open>_http_get_with_retries\<close>\<close>

text \<open>
  \<^verbatim>\<open>
  def _http_get_with_retries(url, timeout, max_retries, backoff):
      last_exc = None
      for attempt in range(1, max_retries + 1):
          try:
              r = requests.get(url, timeout=timeout)
              if 200 <= r.status_code < 300:
                  return r
              last_exc = RuntimeError(f"HTTP {r.status_code}: {r.text[:300]}")
          except Exception as e:
              last_exc = e
          if attempt < max_retries:
              time.sleep(backoff * attempt)
      raise last_exc
  \<close>
  The loop runs over the list of attempt numbers \<open>[1..max_retries]\<close>.
  \<open>time.sleep\<close> stands outside the \<open>try\<close>, and raises on a negative length.
  The URL and the timeout do not change what the function does with an outcome; the
  source \<open>srv\<close> stands for the server behind the URL.
\<close>

fun http_attempts ::
  "(nat \<Rightarrow> 'b http_result) \<Rightarrow> int \<Rightarrow> int \<Rightarrow> int list \<Rightarrow> error option \<Rightarrow> trace
    \<Rightarrow> (error + int \<times> 'b option) \<times> trace" where
  "http_attempts srv max_retries backoff [] last_exc tr =
     (case last_exc of
        None \<Rightarrow> (Inl TypeError_raise_None, tr)
      | Some e \<Rightarrow> (Inl e, tr))"
| "http_attempts srv max_retries backoff (attempt # rest) last_exc tr =
     (case srv (gets tr) of
        Response s b \<Rightarrow>
          if 200 \<le> s \<and> s < 300 then (Inr (s, b), issue_get tr)
          else if attempt < max_retries then
            (if backoff * attempt < 0 then (Inl ValueError_sleep, issue_get tr)
             else http_attempts srv max_retries backoff rest (Some (RuntimeError_HTTP s))
                    (sleep (backoff * attempt) (issue_get tr)))
          else http_attempts srv max_retries backoff rest (Some (RuntimeError_HTTP s))
                 (issue_get tr)
      | Transport_Failure \<Rightarrow>
          if attempt < max_retries then
            (if backoff * attempt < 0 then (Inl ValueError_sleep, issue_get tr)
             else http_attempts srv max_retries backoff rest (Some ConnectionError)
                    (sleep (backoff * attempt) (issue_get tr)))
          else http_attempts srv max_retries backoff rest (Some ConnectionError)
                 (issue_get tr))"

definition http_get_with_retries ::
  "(nat \<Rightarrow> 'b http_result) \<Rightarrow> int \<Rightarrow> int \<Rightarrow> (error + int \<times> 'b option) \<times> trace" where
  "http_get_with_retries srv max_retries backoff =
     http_attempts srv max_retries backoff [1..max_retries] None trace0"

text \<open>
  The doubling sequence of the specification: \<open>n\<close> delays, the first \<open>d\<close>, each the
  double of the one before.
\<close>

definition doubling :: "int \<Rightarrow> nat \<Rightarrow> int list" where
  "doubling d n = map (\<lambda>i. d * 2 ^ i) [0..<n]"

text \<open>A source that answers every GET with the same status and no body.\<close>

definition always :: "int \<Rightarrow> nat \<Rightarrow> 'b http_result" where
  "always s k = Response s None"

text \<open>A source that answers the GETs with the statuses of a list, then with 200.\<close>

definition scripted :: "int list \<Rightarrow> nat \<Rightarrow> 'b http_result" where
  "scripted ss k = (if k < length ss then Response (ss ! k) None else Response 200 None)"

text \<open>
  The specification's reading of "the delays follow a doubling sequence starting from
  \<open>d\<close>": the list of delays is the doubling sequence of its own length.
\<close>

definition follows_doubling :: "int \<Rightarrow> int list \<Rightarrow> bool" where
  "follows_doubling d ds = (ds = doubling d (length ds))"

section \<open>Dane: the extraction loop of \<open>run_extraction\<close>\<close>













text \<open>A source no GET reaches: every attempt ends in a transport-level failure.\<close>

definition transport_down :: "nat \<Rightarrow> unit http_result" where
  "transport_down k = Transport_Failure"

text \<open>
  A source that answers the GETs with the statuses of a list, and that no further GET
  reaches.
\<close>

definition scripted_then_down :: "int list \<Rightarrow> nat \<Rightarrow> unit http_result" where
  "scripted_then_down ss k = (if k < length ss then Response (ss ! k) None else Transport_Failure)"

section \<open>PWT: the local cache\<close>

text \<open>
  \<^verbatim>\<open>
  @dataclass(frozen=True)
  class FileMeta:
      id: int
      label: str
      content_type: str = ""
      size: Optional[int] = None
      checksum: Optional[str] = None  # md5 si lo provee el server
  \<close>
\<close>

record FileMeta =
  file_id :: int
  label :: string
  content_type :: string
  size :: "int option"
  checksum :: "string option"

text \<open>
  Characters are bytes; the classes below are the ASCII part of Python's. White space is
  what \<open>str.strip\<close> strips and \<open>\s\<close> matches: tab to carriage return, the four
  separators 28 to 31, and the space. A word character (\<open>\w\<close>) is a letter, a digit
  or the underscore.
\<close>

definition is_space :: "char \<Rightarrow> bool" where
  "is_space c = (let n = (of_char c :: nat) in (9 \<le> n \<and> n \<le> 13) \<or> (28 \<le> n \<and> n \<le> 32))"

definition is_upper :: "char \<Rightarrow> bool" where
  "is_upper c = (let n = (of_char c :: nat) in 65 \<le> n \<and> n \<le> 90)"

definition is_lower :: "char \<Rightarrow> bool" where
  "is_lower c = (let n = (of_char c :: nat) in 97 \<le> n \<and> n \<le> 122)"

definition is_digit :: "char \<Rightarrow> bool" where
  "is_digit c = (let n = (of_char c :: nat) in 48 \<le> n \<and> n \<le> 57)"

definition is_word :: "char \<Rightarrow> bool" where
  "is_word c = (is_upper c \<or> is_lower c \<or> is_digit c \<or> c = CHR ''_'')"

definition strip :: "string \<Rightarrow> string" where
  "strip s = rev (dropWhile is_space (rev (dropWhile is_space s)))"

definition to_lower :: "char \<Rightarrow> char" where
  "to_lower c = (if is_upper c then char_of (of_char c + (32 :: nat)) else c)"

definition lower :: "string \<Rightarrow> string" where
  "lower s = map to_lower s"

text \<open>
  \<^verbatim>\<open>
  def _safe_name(name):
      return re.sub(r"[^\w\-.]+", "_", name.strip())
  \<close>
  Every run of characters that are no word character, hyphen or dot becomes one
  underscore. \<open>in_run\<close> says that the character before was part of such a run.
\<close>

fun sub_unsafe_runs :: "bool \<Rightarrow> string \<Rightarrow> string" where
  "sub_unsafe_runs in_run [] = []"
| "sub_unsafe_runs in_run (c # cs) =
     (if is_word c \<or> c = CHR ''-'' \<or> c = CHR ''.'' then c # sub_unsafe_runs False cs
      else if in_run then sub_unsafe_runs True cs
      else CHR ''_'' # sub_unsafe_runs True cs)"

definition safe_name :: "string \<Rightarrow> string" where
  "safe_name name = sub_unsafe_runs False (strip name)"

text \<open>
  The local storage is a map from paths to the bytes of the file there; \<open>out_dir / x\<close>
  is the path of \<open>x\<close> in the directory. The messages of the logger are values.
\<close>

definition cache_path :: "string \<Rightarrow> FileMeta \<Rightarrow> string" where
  "cache_path out_dir meta = out_dir @ ''/'' @ safe_name (label meta)"

datatype log_entry =
    Cache_OK string
  | Cache_stale string
  | Cache_found_no_checksum string
  | Downloading string
  | Saved_raw string
  | Using_cache string

text \<open>
  \<^verbatim>\<open>
  def _maybe_use_cache(out_dir, meta):
      p = out_dir / _safe_name(meta.label)
      if not p.exists():
          return None
      if meta.checksum:
          md5 = hashlib.md5(p.read_bytes()).hexdigest()
          if md5 == meta.checksum:
              logger.info("Cache OK para %s (md5 coincide).", meta.label)
              return p.read_bytes()
          logger.info("Cache desactualizada para %s (md5 no coincide).", meta.label)
          return None
      logger.info("Cache encontrada para %s (sin checksum remoto).", meta.label)
      return p.read_bytes()
  \<close>
  The digest function is a parameter. \<open>if meta.checksum\<close> is false for \<open>None\<close> and
  for the empty string.
\<close>

definition maybe_use_cache ::
  "(string \<Rightarrow> string) \<Rightarrow> (string \<rightharpoonup> string) \<Rightarrow> string \<Rightarrow> FileMeta
    \<Rightarrow> string option \<times> log_entry list" where
  "maybe_use_cache md5_hexdigest fs out_dir meta =
     (case fs (cache_path out_dir meta) of
        None \<Rightarrow> (None, [])
      | Some local \<Rightarrow>
          (case checksum meta of
             Some (c # cs) \<Rightarrow>
               if md5_hexdigest local = c # cs then (Some local, [Cache_OK (label meta)])
               else (None, [Cache_stale (label meta)])
           | _ \<Rightarrow> (Some local, [Cache_found_no_checksum (label meta)])))"

text \<open>
  The part of \<open>load_pwt\<close> that resolves the raw bytes:
  \<^verbatim>\<open>
  raw = _maybe_use_cache(out, meta) if use_cache else None
  if raw is None:
      logger.info("Descargando %s ...", meta.label)
      raw = download_file_by_id(base, meta.id, original=True)
      (out / _safe_name(meta.label)).write_bytes(raw)
      logger.info("Guardado archivo crudo en %s", ...)
  else:
      logger.info("Usando archivo desde cache: %s", meta.label)
  \<close>
  The download is a parameter: the bytes the source serves for a file id, or the
  exception of the request. The result holds the raw bytes, the storage afterwards,
  the file ids downloaded and the log.
\<close>

definition resolve_raw ::
  "(string \<Rightarrow> string) \<Rightarrow> (int \<Rightarrow> error + string) \<Rightarrow> (string \<rightharpoonup> string) \<Rightarrow> string \<Rightarrow> FileMeta
    \<Rightarrow> bool \<Rightarrow> error + string \<times> (string \<rightharpoonup> string) \<times> int list \<times> log_entry list" where
  "resolve_raw md5_hexdigest download fs out_dir meta use_cache =
     (let (cached, log) =
            (if use_cache then maybe_use_cache md5_hexdigest fs out_dir meta else (None, []))
      in case cached of
           None \<Rightarrow>
             (case download (file_id meta) of
                Inl e \<Rightarrow> Inl e
              | Inr raw \<Rightarrow>
                  Inr (raw, fs(cache_path out_dir meta \<mapsto> raw), [file_id meta],
                       log @ [Downloading (label meta), Saved_raw (cache_path out_dir meta)]))
         | Some raw \<Rightarrow> Inr (raw, fs, [], log @ [Using_cache (label meta)]))"

text \<open>A digest for examples: the length of the file, in unary.\<close>

definition toy_digest :: "string \<Rightarrow> string" where
  "toy_digest bytes = replicate (length bytes) CHR ''f''"

definition serve_new :: "int \<Rightarrow> error + string" where
  "serve_new i = Inr ''new''"

definition pwt_meta :: "string option \<Rightarrow> FileMeta" where
  "pwt_meta c = \<lparr>file_id = 7, label = ''pwt110.dta'', content_type = [], size = None,
     checksum = c\<rparr>"

definition pwt_storage :: "string \<rightharpoonup> string" where
  "pwt_storage = [''pwt_out/pwt110.dta'' \<mapsto> ''abc'']"

section \<open>SiMEM: canonical column names\<close>

text \<open>
  \<^verbatim>\<open>
  def _snake_case(name):
      import re
      s = re.sub(r"([a-z0-9])([A-Z])", r"\1_\2", name)
      s = re.sub(r"[\s\-\/]+", "_", s)
      s = s.replace("__", "_")
      return s.lower()
  \<close>
  Each step is a function of its own. The first pattern's two characters are of
  disjoint classes, so matches never overlap and a left-to-right scan over adjacent
  pairs finds them all.
\<close>

fun sub_lower_upper :: "string \<Rightarrow> string" where
  "sub_lower_upper (a # b # rest) =
     (if (is_lower a \<or> is_digit a) \<and> is_upper b then a # CHR ''_'' # sub_lower_upper (b # rest)
      else a # sub_lower_upper (b # rest))"
| "sub_lower_upper s = s"

fun sub_separator_runs :: "bool \<Rightarrow> string \<Rightarrow> string" where
  "sub_separator_runs in_run [] = []"
| "sub_separator_runs in_run (c # cs) =
     (if is_space c \<or> c = CHR ''-'' \<or> c = CHR ''/'' then
        (if in_run then sub_separator_runs True cs else CHR ''_'' # sub_separator_runs True cs)
      else c # sub_separator_runs False cs)"

fun replace_double_underscore :: "string \<Rightarrow> string" where
  "replace_double_underscore (a # b # rest) =
     (if a = CHR ''_'' \<and> b = CHR ''_'' then CHR ''_'' # replace_double_underscore rest
      else a # replace_double_underscore (b # rest))"
| "replace_double_underscore s = s"

definition snake_case :: "string \<Rightarrow> string" where
  "snake_case name =
     lower (replace_double_underscore (sub_separator_runs False (sub_lower_upper name)))"

section \<open>SiMEM: records, cells and data frames\<close>

text \<open>
  A record of the API is a JSON object: keys with scalars or nested objects.
  Numbers are integers here.
\<close>

datatype json = JNull | JNum int | JStr string | JDict "(string \<times> json) list"

text \<open>
  A cell of a data frame: the null marker (\<open>None\<close>, \<open>NaN\<close>, \<open>NaT\<close>, \<open><NA>\<close>),
  a text, a number, a timestamp (nanoseconds since 1970-01-01T00:00:00, the
  resolution of pandas), a calendar date (days since 1970-01-01), or a timestamp with
  time zone (nanoseconds since 1970-01-01T00:00:00 UTC and the offset of the zone in
  minutes).
\<close>

datatype cell = Null | Str string | Num int | Timestamp int | Date int | Timestamp_tz int int

datatype dtype =
  Object_dtype | Numeric_dtype | String_dtype | Datetime64_dtype | Datetime64tz_dtype

record column =
  cname :: string
  ctype :: dtype
  cells :: "cell list"

type_synonym dataframe = "column list"

definition columns :: "dataframe \<Rightarrow> string list" where
  "columns df = map cname df"

subsection \<open>The flattener: \<open>pd.json_normalize(records, sep="_")\<close>\<close>

text \<open>
  pandas flattens each record on its own. A Python \<open>dict\<close> is an association list
  with the order of insertion; storing under a key that is there keeps the key's place
  (\<open>AList.update\<close>).
  \<^verbatim>\<open>
  def _normalise_json(data, key_string, normalized_dict, separator):
      if isinstance(data, dict):
          for key, value in data.items():
              new_key = f"{key_string}{separator}{key}"
              if not key_string:
                  new_key = new_key.removeprefix(separator)
              _normalise_json(value, new_key, normalized_dict, separator)
      else:
          normalized_dict[key_string] = data
      return normalized_dict

  def _normalise_json_ordered(data, separator):
      top_dict_ = {k: v for k, v in data.items() if not isinstance(v, dict)}
      nested_dict_ = _normalise_json({k: v for k, v in data.items() if isinstance(v, dict)},
                                     "", {}, separator)
      return {**top_dict_, **nested_dict_}
  \<close>
\<close>

definition new_key :: "string \<Rightarrow> string \<Rightarrow> string \<Rightarrow> string" where
  "new_key separator key_string key =
     (if key_string = [] then key else key_string @ separator @ key)"

fun normalise_json :: "string \<Rightarrow> json \<Rightarrow> string \<Rightarrow> (string \<times> json) list \<Rightarrow> (string \<times> json) list"
  and normalise_items ::
    "string \<Rightarrow> (string \<times> json) list \<Rightarrow> string \<Rightarrow> (string \<times> json) list \<Rightarrow> (string \<times> json) list"
  where
  "normalise_json separator (JDict items) key_string normalized_dict =
     normalise_items separator items key_string normalized_dict"
| "normalise_json separator JNull key_string normalized_dict =
     AList.update key_string JNull normalized_dict"
| "normalise_json separator (JNum n) key_string normalized_dict =
     AList.update key_string (JNum n) normalized_dict"
| "normalise_json separator (JStr s) key_string normalized_dict =
     AList.update key_string (JStr s) normalized_dict"
| "normalise_items separator [] key_string normalized_dict = normalized_dict"
| "normalise_items separator ((key, v) # rest) key_string normalized_dict =
     normalise_items separator rest key_string
       (normalise_json separator v (new_key separator key_string key) normalized_dict)"

fun is_dict :: "json \<Rightarrow> bool" where
  "is_dict (JDict items) = True"
| "is_dict v = False"

definition dict_update_all :: "(string \<times> 'v) list \<Rightarrow> (string \<times> 'v) list \<Rightarrow> (string \<times> 'v) list" where
  "dict_update_all d items = fold (\<lambda>(k, v) acc. AList.update k v acc) items d"

definition normalise_json_ordered :: "string \<Rightarrow> (string \<times> json) list \<Rightarrow> (string \<times> json) list" where
  "normalise_json_ordered separator data =
     (let top_dict = dict_update_all [] (filter (\<lambda>(k, v). \<not> is_dict v) data);
          nested_dict =
            normalise_json separator
              (JDict (dict_update_all [] (filter (\<lambda>(k, v). is_dict v) data))) [] []
      in dict_update_all top_dict nested_dict)"

text \<open>
  The data frame of a list of flat records: its columns are the keys in the order in
  which they are first seen; a record without the key has the null marker there.
\<close>

definition first_seen :: "'a list \<Rightarrow> 'a list" where
  "first_seen xs = fold (\<lambda>x acc. if x \<in> set acc then acc else acc @ [x]) xs []"

fun cell_of_json :: "json \<Rightarrow> cell" where
  "cell_of_json (JNum n) = Num n"
| "cell_of_json (JStr s) = Str s"
| "cell_of_json v = Null"

fun is_num :: "cell \<Rightarrow> bool" where
  "is_num (Num n) = True"
| "is_num c = False"

definition infer_dtype :: "cell list \<Rightarrow> dtype" where
  "infer_dtype cs =
     (if list_ex is_num cs \<and> list_all (\<lambda>c. is_num c \<or> c = Null) cs then Numeric_dtype
      else Object_dtype)"

definition dataframe_of_dicts :: "(string \<times> json) list list \<Rightarrow> dataframe" where
  "dataframe_of_dicts rows =
     map (\<lambda>c. let cs = map (\<lambda>r. case map_of r c of None \<Rightarrow> Null | Some v \<Rightarrow> cell_of_json v) rows
               in \<lparr>cname = c, ctype = infer_dtype cs, cells = cs\<rparr>)
       (first_seen (concat (map (map fst) rows)))"

definition json_normalize :: "(string \<times> json) list list \<Rightarrow> string \<Rightarrow> dataframe" where
  "json_normalize records sep = dataframe_of_dicts (map (normalise_json_ordered sep) records)"

text \<open>
  The flattener of \<open>fetch_dataset_and_clean\<close>:
  \<^verbatim>\<open>df = pd.json_normalize(records, sep="_")\<close>
\<close>

definition flatten_records :: "(string \<times> json) list list \<Rightarrow> dataframe" where
  "flatten_records records = json_normalize records ''_''"

text \<open>The row of a data frame at an index, as the list of its cells in column order.\<close>

definition row_at :: "dataframe \<Rightarrow> nat \<Rightarrow> cell list" where
  "row_at df i = map (\<lambda>c. cells c ! i) df"

text \<open>The two records of the specification's scenario.\<close>

definition scenario_records :: "(string \<times> json) list list" where
  "scenario_records =
     [[(''a'', JDict [(''b'', JNum 1)])], [(''a'', JDict [(''c'', JNum 2)])]]"

subsection \<open>Timestamps: \<open>pd.to_datetime\<close>\<close>

text \<open>
  \<open>pd.to_datetime\<close> is pandas' function, not the repository's. It is modelled as
  pandas 2 behaves, in two layers.

  The layer of one text is a parameter of the model, a record of four functions:
  \<^item> \<open>guess_datetime_format\<close>: the format pandas guesses from a text, \<open>None\<close> when it
    can guess none;
  \<^item> \<open>strptime\<close>: the point in time a text denotes under a format that it matches
    exactly, \<open>None\<close> when it does not match or the point is out of range;
  \<^item> \<open>parse_text\<close>: the point in time a text denotes when it is parsed on its own,
    with no format;
  \<^item> \<open>scalar\<close>: \<open>pd.to_datetime(text)\<close> of one text with the default
    \<open>errors="raise"\<close>, as the date filter calls it on its bounds: an exception, \<open>NaT\<close>
    (here \<open>None\<close>) or a point in time.

  A point in time is a count of nanoseconds since 1970-01-01T00:00:00 and, for a text
  with a UTC offset, the offset in minutes; with an offset the count is of UTC, without
  one of the wall clock.
\<close>

type_synonym stamp = "int \<times> int option"

record 'f text_parser =
  guess_datetime_format :: "string \<Rightarrow> 'f option"
  strptime :: "'f \<Rightarrow> string \<Rightarrow> stamp option"
  parse_text :: "string \<Rightarrow> stamp option"
  scalar :: "string \<Rightarrow> error + stamp option"

text \<open>
  The layer of a column is what pandas 2 does with \<open>errors="coerce"\<close>, the only mode in
  which the source converts a column:
  \<^item> a column that holds datetimes already is returned as it is;
  \<^item> otherwise the first value that is not null decides. The null values are the null
    marker, the empty text and the texts pandas reads as \<open>NaT\<close>. If the first value
    is a text and pandas guesses a format from it, that one format is applied to
    every value of the column, and a text that does not match it exactly becomes
    \<open>NaT\<close>, also when it is a date in another form. If no format is guessed, or the
    first value is no text, every value is parsed on its own;
  \<^item> a number parsed on its own counts nanoseconds; under a guessed format it is
    matched as its text (Python's \<open>str\<close> of it, the parameter \<open>fmt\<close>);
  \<^item> a value out of the range of 64-bit nanoseconds becomes \<open>NaT\<close>;
  \<^item> the result is a datetime column without time zone when no value carries an
    offset, a datetime column with time zone when every value carries the same offset,
    and a column of dtype \<open>object\<close> holding the single timestamps otherwise (offsets
    that differ, or values with and without offset).
  With \<open>errors="coerce"\<close> the conversion of a column raises for no value of a cell.
\<close>

definition ns_per_second :: int where
  "ns_per_second = 1000000000"

definition ns_per_day :: int where
  "ns_per_day = 86400 * ns_per_second"

text \<open>A timestamp of pandas is a 64-bit count of nanoseconds; the least value is \<open>NaT\<close>.\<close>

definition in_bounds :: "int \<Rightarrow> bool" where
  "in_bounds t = (- (2 ^ 63) < t \<and> t < 2 ^ 63)"

definition nat_strings :: "string list" where
  "nat_strings = [''NaT'', ''nat'', ''NAT'', ''nan'', ''NaN'', ''NAN'']"

definition null_text :: "string \<Rightarrow> bool" where
  "null_text s = (s = [] \<or> s \<in> set nat_strings)"

fun first_non_null :: "cell list \<Rightarrow> cell option" where
  "first_non_null [] = None"
| "first_non_null (Null # cs) = first_non_null cs"
| "first_non_null (Str s # cs) = (if null_text s then first_non_null cs else Some (Str s))"
| "first_non_null (c # cs) = Some c"

text \<open>The point in time of a cell that holds a timestamp or a calendar date.\<close>

fun cell_stamp :: "cell \<Rightarrow> stamp option" where
  "cell_stamp (Timestamp t) = Some (t, None)"
| "cell_stamp (Timestamp_tz t z) = Some (t, Some z)"
| "cell_stamp c = None"

fun stamp_of_object :: "cell \<Rightarrow> stamp option" where
  "stamp_of_object (Date d) =
     (if in_bounds (d * ns_per_day) then Some (d * ns_per_day, None) else None)"
| "stamp_of_object c = cell_stamp c"

fun stamp_cell :: "stamp option \<Rightarrow> cell" where
  "stamp_cell None = Null"
| "stamp_cell (Some (t, None)) = Timestamp t"
| "stamp_cell (Some (t, Some z)) = Timestamp_tz t z"

text \<open>One value under the guessed format, and one value parsed on its own.\<close>

fun convert_with_format :: "'f text_parser \<Rightarrow> (cell \<Rightarrow> string) \<Rightarrow> 'f \<Rightarrow> cell \<Rightarrow> stamp option" where
  "convert_with_format P fmt f Null = None"
| "convert_with_format P fmt f (Str s) = (if null_text s then None else strptime P f s)"
| "convert_with_format P fmt f (Num n) =
     (if n = - (2 ^ 63) then None else strptime P f (fmt (Num n)))"
| "convert_with_format P fmt f c = stamp_of_object c"

fun convert_alone :: "'f text_parser \<Rightarrow> cell \<Rightarrow> stamp option" where
  "convert_alone P Null = None"
| "convert_alone P (Str s) = (if null_text s then None else parse_text P s)"
| "convert_alone P (Num n) = (if in_bounds n then Some (n, None) else None)"
| "convert_alone P c = stamp_of_object c"

text \<open>The column pandas makes of the converted values: its dtype and its cells.\<close>

definition box_stamps :: "stamp option list \<Rightarrow> dtype \<times> cell list" where
  "box_stamps xs =
     (let zones = remdups (map snd (concat (map (\<lambda>x. case x of None \<Rightarrow> [] | Some v \<Rightarrow> [v]) xs)))
      in (if list_all (\<lambda>z. z = None) zones then Datetime64_dtype
          else if length zones = 1 then Datetime64tz_dtype
          else Object_dtype,
          map stamp_cell xs))"

definition to_datetime :: "'f text_parser \<Rightarrow> (cell \<Rightarrow> string) \<Rightarrow> column \<Rightarrow> dtype \<times> cell list" where
  "to_datetime P fmt col =
     (if ctype col = Datetime64_dtype \<or> ctype col = Datetime64tz_dtype
      then (ctype col, cells col)
      else box_stamps
        (case first_non_null (cells col) of
           Some (Str s) \<Rightarrow>
             (case guess_datetime_format P s of
                Some f \<Rightarrow> map (convert_with_format P fmt f) (cells col)
              | None \<Rightarrow> map (convert_alone P) (cells col))
         | _ \<Rightarrow> map (convert_alone P) (cells col)))"

text \<open>
  The accessor \<open>.dt\<close> exists on datetime columns only: on a column of dtype \<open>object\<close>
  it raises \<open>AttributeError\<close>. \<open>.dt.date\<close> is the calendar date of each
  timestamp, in its own time zone when it has one; \<open>NaT\<close> stays null.
\<close>

definition dt_accessor :: "dtype \<times> cell list \<Rightarrow> error + cell list" where
  "dt_accessor s =
     (if fst s = Datetime64_dtype \<or> fst s = Datetime64tz_dtype then Inr (snd s)
      else Inl AttributeError_dt)"

fun dt_date :: "cell \<Rightarrow> cell" where
  "dt_date (Timestamp t) = Date (t div ns_per_day)"
| "dt_date (Timestamp_tz t z) = Date ((t + z * 60 * ns_per_second) div ns_per_day)"
| "dt_date c = Null"

subsubsection \<open>An instance of the text layer: ISO 8601\<close>

text \<open>
  pandas reads dates in many forms. The instance used in the examples reads the ISO 8601
  forms \<open>YYYY-MM-DD\<close> and \<open>YYYY-MM-DD[T or space]HH:MM:SS[.f][Z or +HH:MM or -HH:MM]\<close>,
  with one to nine fractional digits and years from 0001 on, and takes every other text
  for no date. The format guessed from a text of these forms is \<open>%Y-%m-%d\<close>, followed
  for a text with a time by the separator and \<open>%H:%M:%S\<close>, by \<open>.%f\<close> when there is a
  fraction and by \<open>%z\<close> when there is an offset; a text matches a format exactly when
  it is a date of just that form. The examples use texts of these forms and texts that
  are a date in no form.
\<close>

definition digits_value :: "string \<Rightarrow> int option" where
  "digits_value s =
     (if s \<noteq> [] \<and> list_all is_digit s
      then Some (foldl (\<lambda>a c. 10 * a + (int (of_char c) - 48)) 0 s)
      else None)"

definition is_leap :: "int \<Rightarrow> bool" where
  "is_leap y = (y mod 4 = 0 \<and> (y mod 100 \<noteq> 0 \<or> y mod 400 = 0))"

definition days_in_month :: "int \<Rightarrow> int \<Rightarrow> int" where
  "days_in_month y m =
     (if m = 2 then (if is_leap y then 29 else 28)
      else if m = 4 \<or> m = 6 \<or> m = 9 \<or> m = 11 then 30 else 31)"

text \<open>Days from 1970-01-01 to a date of the proleptic Gregorian calendar.\<close>

definition days_from_civil :: "int \<Rightarrow> int \<Rightarrow> int \<Rightarrow> int" where
  "days_from_civil y m d =
     (let y' = (if m \<le> 2 then y - 1 else y);
          era = y' div 400;
          yoe = y' - era * 400;
          doy = (153 * (if m > 2 then m - 3 else m + 9) + 2) div 5 + d - 1;
          doe = yoe * 365 + yoe div 4 - yoe div 100 + doy
      in era * 146097 + doe - 719468)"

definition parse_date :: "string \<Rightarrow> int option" where
  "parse_date s =
     (if length s = 10 \<and> s ! 4 = CHR ''-'' \<and> s ! 7 = CHR ''-'' then
        (case (digits_value (take 4 s), digits_value (take 2 (drop 5 s)),
               digits_value (drop 8 s)) of
           (Some y, Some m, Some d) \<Rightarrow>
             if 1 \<le> y \<and> 1 \<le> m \<and> m \<le> 12 \<and> 1 \<le> d \<and> d \<le> days_in_month y m
             then Some (days_from_civil y m d) else None
         | _ \<Rightarrow> None)
      else None)"

text \<open>The seconds of \<open>HH:MM:SS\<close>, the nanoseconds of \<open>.f\<close>, the minutes of an offset.\<close>

definition parse_hms :: "string \<Rightarrow> int option" where
  "parse_hms s =
     (if length s = 8 \<and> s ! 2 = CHR '':'' \<and> s ! 5 = CHR '':'' then
        (case (digits_value (take 2 s), digits_value (take 2 (drop 3 s)),
               digits_value (drop 6 s)) of
           (Some h, Some mi, Some sec) \<Rightarrow>
             if h < 24 \<and> mi < 60 \<and> sec < 60 then Some (h * 3600 + mi * 60 + sec) else None
         | _ \<Rightarrow> None)
      else None)"

definition parse_fraction :: "string \<Rightarrow> int option" where
  "parse_fraction s =
     (case s of
        [] \<Rightarrow> Some 0
      | c # frac \<Rightarrow>
          if c = CHR ''.'' \<and> length frac \<le> 9 then
            (case digits_value frac of
               Some f \<Rightarrow> Some (f * 10 ^ (9 - length frac))
             | None \<Rightarrow> None)
          else None)"

definition parse_offset :: "string \<Rightarrow> int option option" where
  "parse_offset s =
     (if s = [] then Some None
      else if s = ''Z'' then Some (Some 0)
      else if length s = 6 \<and> (s ! 0 = CHR ''+'' \<or> s ! 0 = CHR ''-'') \<and> s ! 3 = CHR '':'' then
        (case (digits_value (take 2 (drop 1 s)), digits_value (drop 4 s)) of
           (Some h, Some mi) \<Rightarrow>
             if h < 24 \<and> mi < 60
             then Some (Some ((if s ! 0 = CHR ''-'' then - 1 else 1) * (h * 60 + mi)))
             else None
         | _ \<Rightarrow> None)
      else None)"

text \<open>The fraction at the head of what follows the seconds: the dot and its digits.\<close>

definition fraction_part :: "string \<Rightarrow> string" where
  "fraction_part s =
     (case s of
        [] \<Rightarrow> []
      | c # r \<Rightarrow> if c = CHR ''.'' then c # takeWhile is_digit r else [])"

text \<open>
  The form of a text: a date, or a date and a time with its separator, with or without
  fraction, with or without offset.
\<close>

datatype iso_form = Iso_date | Iso_datetime char bool bool

text \<open>
  A text of the ISO forms, read: its form, the nanoseconds of its wall-clock reading
  since 1970-01-01T00:00:00, and its offset.
\<close>

definition iso_parse :: "string \<Rightarrow> (iso_form \<times> int \<times> int option) option" where
  "iso_parse s =
     (case parse_date (take 10 s) of
        None \<Rightarrow> None
      | Some days \<Rightarrow>
          if length s = 10 then Some (Iso_date, days * ns_per_day, None)
          else if s ! 10 = CHR ''T'' \<or> s ! 10 = CHR '' '' then
            (let tail = drop 19 s;
                 frac = fraction_part tail
             in case (parse_hms (take 8 (drop 11 s)), parse_fraction frac,
                      parse_offset (drop (length frac) tail)) of
                  (Some sec, Some f, Some z) \<Rightarrow>
                    Some (Iso_datetime (s ! 10) (frac \<noteq> []) (z \<noteq> None),
                          days * ns_per_day + sec * ns_per_second + f, z)
                | _ \<Rightarrow> None)
          else None)"

definition iso_guess :: "string \<Rightarrow> iso_form option" where
  "iso_guess s = map_option fst (iso_parse s)"

definition iso_stamp :: "string \<Rightarrow> stamp option" where
  "iso_stamp s =
     (case iso_parse s of
        None \<Rightarrow> None
      | Some (f, wall, z) \<Rightarrow>
          (let utc = (case z of None \<Rightarrow> wall | Some m \<Rightarrow> wall - m * 60 * ns_per_second)
           in if in_bounds utc then Some (utc, z) else None))"

definition iso_strptime :: "iso_form \<Rightarrow> string \<Rightarrow> stamp option" where
  "iso_strptime f s = (if iso_guess s = Some f then iso_stamp s else None)"

text \<open>
  \<open>pd.to_datetime(text)\<close> of one text: \<open>NaT\<close> for a null text, \<open>ValueError\<close> for
  a text that is no date, \<open>OutOfBoundsDatetime\<close> for a date out of the range of
  64-bit nanoseconds.
\<close>

definition iso_scalar :: "string \<Rightarrow> error + stamp option" where
  "iso_scalar s =
     (if null_text s then Inr None
      else if iso_parse s = None then Inl ValueError_date
      else (case iso_stamp s of
              None \<Rightarrow> Inl OutOfBoundsDatetime
            | Some v \<Rightarrow> Inr (Some v)))"

definition iso8601 :: "iso_form text_parser" where
  "iso8601 = \<lparr>guess_datetime_format = iso_guess, strptime = iso_strptime,
              parse_text = iso_stamp, scalar = iso_scalar\<rparr>"


subsection \<open>Text columns and renaming\<close>

text \<open>
  \<open>astype("string")\<close> and \<open>.str.strip()\<close>. The text of a value that is no text is
  Python's \<open>str\<close> of it, a parameter.
\<close>

fun astype_string :: "(cell \<Rightarrow> string) \<Rightarrow> cell \<Rightarrow> cell" where
  "astype_string fmt Null = Null"
| "astype_string fmt (Str s) = Str s"
| "astype_string fmt c = Str (fmt c)"

fun str_strip :: "cell \<Rightarrow> cell" where
  "str_strip (Str s) = Str (strip s)"
| "str_strip c = c"

definition as_text :: "(cell \<Rightarrow> string) \<Rightarrow> bool \<Rightarrow> column \<Rightarrow> column" where
  "as_text fmt strip_text col =
     col\<lparr>ctype := String_dtype,
         cells := map (\<lambda>c. if strip_text then str_strip (astype_string fmt c)
                            else astype_string fmt c) (cells col)\<rparr>"

definition rename_snake :: "bool \<Rightarrow> dataframe \<Rightarrow> dataframe" where
  "rename_snake to_snake df =
     (if to_snake then map (\<lambda>col. col\<lparr>cname := snake_case (cname col)\<rparr>) df else df)"

text \<open>A loop over the columns that stops at the first exception.\<close>

fun for_each_column :: "(column \<Rightarrow> error + column) \<Rightarrow> dataframe \<Rightarrow> error + dataframe" where
  "for_each_column f [] = Inr []"
| "for_each_column f (col # rest) =
     (case f col of
        Inl e \<Rightarrow> Inl e
      | Inr col' \<Rightarrow>
          (case for_each_column f rest of
             Inl e \<Rightarrow> Inl e
           | Inr rest' \<Rightarrow> Inr (col' # rest')))"

text \<open>
  \<open>df[col]\<close> is a column when one column bears the name, and a data frame of all the
  columns of that name when several do. On such a frame \<open>pd.to_datetime\<close> raises
  \<open>ValueError\<close> (it cannot assemble a date from duplicate keys), and the accessor
  \<open>.str\<close> does not exist.
\<close>

definition duplicated :: "dataframe \<Rightarrow> string \<Rightarrow> bool" where
  "duplicated df name = (1 < length (filter (\<lambda>c. cname c = name) df))"

subsection \<open>Coercion by the declared schema: \<open>_map_types_by_schema\<close>\<close>

text \<open>
  \<^verbatim>\<open>
  def _map_types_by_schema(df, schema_columns, to_snake, strip_text):
      def _norm(s): return s.strip().lower()
      idx = { _norm(c.get("nameColumn", "")):
                (c.get("nameColumn"), (c.get("dataType") or "").lower())
              for c in schema_columns if c.get("nameColumn") }
      for col in list(df.columns):
          key = _norm(col)
          _, dtype = idx.get(key, (None, None))
          if dtype == "fecha":
              df[col] = pd.to_datetime(df[col], errors="coerce").dt.date
          elif dtype == "fecha hora":
              df[col] = pd.to_datetime(df[col], errors="coerce")
          else:
              df[col] = df[col].astype("string")
              if strip_text:
                  df[col] = df[col].str.strip()
      if to_snake:
          df = df.rename(columns={c: _snake_case(c) for c in df.columns})
      return df
  \<close>
  The step of one column takes the column and whether its name is borne by several
  columns of the frame.
\<close>

record schema_column =
  nameColumn :: "string option"
  dataType :: "string option"

definition norm :: "string \<Rightarrow> string" where
  "norm s = lower (strip s)"

definition schema_index :: "schema_column list \<Rightarrow> (string \<times> string \<times> string) list" where
  "schema_index schema_columns =
     fold (\<lambda>c idx.
             case nameColumn c of
               Some (x # xs) \<Rightarrow>
                 AList.update (norm (x # xs))
                   (x # xs, lower (case dataType c of None \<Rightarrow> [] | Some t \<Rightarrow> t)) idx
             | _ \<Rightarrow> idx)
       schema_columns []"

definition coerce_column ::
  "'f text_parser \<Rightarrow> (cell \<Rightarrow> string) \<Rightarrow> (string \<times> string \<times> string) list \<Rightarrow> bool \<Rightarrow> bool
    \<Rightarrow> column \<Rightarrow> error + column" where
  "coerce_column P fmt idx strip_text dup col =
     (let declared = (case map_of idx (norm (cname col)) of
                        None \<Rightarrow> None
                      | Some (nm, t) \<Rightarrow> Some t)
      in if declared = Some ''fecha'' then
           (if dup then Inl ValueError_duplicate_keys
            else (case dt_accessor (to_datetime P fmt col) of
                    Inl e \<Rightarrow> Inl e
                  | Inr ts \<Rightarrow> Inr (col\<lparr>ctype := Object_dtype, cells := map dt_date ts\<rparr>)))
         else if declared = Some ''fecha hora'' then
           (if dup then Inl ValueError_duplicate_keys
            else Inr (col\<lparr>ctype := fst (to_datetime P fmt col),
                          cells := snd (to_datetime P fmt col)\<rparr>))
         else if dup \<and> strip_text then Inl AttributeError_str
         else Inr (as_text fmt strip_text col))"

definition map_types_by_schema ::
  "'f text_parser \<Rightarrow> (cell \<Rightarrow> string) \<Rightarrow> dataframe \<Rightarrow> schema_column list \<Rightarrow> bool \<Rightarrow> bool
    \<Rightarrow> error + dataframe" where
  "map_types_by_schema P fmt df schema_columns to_snake strip_text =
     (case for_each_column
             (\<lambda>col. coerce_column P fmt (schema_index schema_columns) strip_text
                       (duplicated df (cname col)) col) df of
        Inl e \<Rightarrow> Inl e
      | Inr df' \<Rightarrow> Inr (rename_snake to_snake df'))"

text \<open>
  A frame with one column declared \<open>fecha\<close> whose two values are valid datetimes with
  different UTC offsets, the same frame with one offset, and the same frame with a value
  that is no date.
\<close>

definition fecha_schema :: "schema_column list" where
  "fecha_schema = [\<lparr>nameColumn = Some ''Fecha'', dataType = Some ''fecha''\<rparr>]"

definition mixed_offset_frame :: dataframe where
  "mixed_offset_frame =
     [\<lparr>cname = ''Fecha'', ctype = Object_dtype,
       cells = [Str ''2025-01-10T00:00:00+01:00'', Str ''2025-01-10T00:00:00-05:00'']\<rparr>]"

definition one_offset_frame :: dataframe where
  "one_offset_frame =
     [\<lparr>cname = ''Fecha'', ctype = Object_dtype,
       cells = [Str ''2025-01-10T00:00:00+01:00'', Str ''2025-01-10T23:30:00+01:00'']\<rparr>]"

definition bad_value_frame :: dataframe where
  "bad_value_frame =
     [\<lparr>cname = ''Fecha'', ctype = Object_dtype,
       cells = [Str ''2025-01-10'', Str ''abc'', Null]\<rparr>]"

subsection \<open>Fallback inference: \<open>_fallback_infer_types\<close>\<close>








text \<open>A text for values that are no text, for examples that have none.\<close>

definition no_text :: "cell \<Rightarrow> string" where
  "no_text c = []"

text \<open>A frame whose two column names meet after renaming.\<close>

definition clash_frame :: dataframe where
  "clash_frame =
     [\<lparr>cname = ''FechaInicio'', ctype = Object_dtype, cells = [Str ''2025-01-10'']\<rparr>,
      \<lparr>cname = ''fecha_inicio'', ctype = Object_dtype, cells = [Str ''x'']\<rparr>]"

definition clash_schema :: "schema_column list" where
  "clash_schema = [\<lparr>nameColumn = Some ''FechaInicio'', dataType = Some ''fecha''\<rparr>]"

subsection \<open>The client-side date filter: \<open>_apply_client_date_filter\<close>\<close>


datatype warning =
    Date_filter_ignored string
  | Subset_missing "string list"




















subsection \<open>The column subset of \<open>fetch_dataset_and_clean\<close>\<close>

text \<open>
  \<^verbatim>\<open>
  if subset_cols:
      final_cols = [(_snake_case(c) if to_snake else c) for c in subset_cols]
      missing = [c for c in final_cols if c not in df.columns]
      if missing:
          print(f"[WARN] Columnas faltantes en subset: {missing}. Se ignoraran.")
      keep = [c for c in final_cols if c in df.columns]
      if keep:
          df = df[keep].copy()
  \<close>
  \<open>df[keep]\<close> takes, for each name of \<open>keep\<close> in turn, the columns of that name.
\<close>

definition select_columns :: "dataframe \<Rightarrow> string list \<Rightarrow> dataframe" where
  "select_columns df keep = concat (map (\<lambda>c. filter (\<lambda>col. cname col = c) df) keep)"

definition subset_columns :: "dataframe \<Rightarrow> string list \<Rightarrow> bool \<Rightarrow> dataframe \<times> warning list" where
  "subset_columns df subset_cols to_snake =
     (if subset_cols = [] then (df, [])
      else
        (let final_cols = map (\<lambda>c. if to_snake then snake_case c else c) subset_cols;
             missing = filter (\<lambda>c. c \<notin> set (columns df)) final_cols;
             keep = filter (\<lambda>c. c \<in> set (columns df)) final_cols
         in (if keep \<noteq> [] then select_columns df keep else df,
             if missing \<noteq> [] then [Subset_missing missing] else [])))"

text \<open>A data frame of two text columns, for examples.\<close>

definition two_columns :: dataframe where
  "two_columns =
     [\<lparr>cname = ''fecha_inicio'', ctype = String_dtype, cells = [Str ''x'']\<rparr>,
      \<lparr>cname = ''valor'', ctype = String_dtype, cells = [Str ''y'']\<rparr>]"

section \<open>The wide views: \<open>pivot_table(..., aggfunc="first")\<close>\<close>

text \<open>
  Both wide views are built by pandas' \<open>pivot_table\<close> with \<open>aggfunc="first"\<close> and
  its defaults. A row of the long table gives the pivot its entity key (the index),
  its series label (the columns) and its value; each may be the null marker. pandas
  \<^item> groups the rows by key and label, leaving out every row whose key or label is null
    (\<open>groupby\<close> with \<open>dropna=True\<close>);
  \<^item> takes for each group the first value that is not null, in row order
    (\<open>GroupBy.first\<close>);
  \<^item> drops the groups whose value is null (\<open>dropna(how="all")\<close>);
  \<^item> unstacks: one row per key left, one column per label left, both sorted, and the
    null marker where a key and a label have no group.
\<close>

definition first_valid :: "'v option list \<Rightarrow> 'v option" where
  "first_valid vs = (case filter (\<lambda>v. v \<noteq> None) vs of [] \<Rightarrow> None | v # rest \<Rightarrow> v)"

definition group_first :: "('k option \<times> 'c option \<times> 'v option) list \<Rightarrow> 'k \<Rightarrow> 'c \<Rightarrow> 'v option" where
  "group_first rows k c =
     first_valid (map (\<lambda>(k', c', v). v) (filter (\<lambda>(k', c', v). k' = Some k \<and> c' = Some c) rows))"

record ('k, 'c, 'v) wide =
  index :: "'k list"
  wide_columns :: "'c list"
  wide_cells :: "'v option list list"

definition agged_groups :: "('k option \<times> 'c option \<times> 'v option) list \<Rightarrow> ('k \<times> 'c) list" where
  "agged_groups rows =
     concat (map (\<lambda>(k', c', v).
                    case (k', c') of
                      (Some k, Some c) \<Rightarrow> if group_first rows k c \<noteq> None then [(k, c)] else []
                    | _ \<Rightarrow> [])
               rows)"

definition pivot_table_first ::
  "('k::linorder option \<times> 'c::linorder option \<times> 'v option) list \<Rightarrow> ('k, 'c, 'v) wide" where
  "pivot_table_first rows =
     (let idx = sort (remdups (map fst (agged_groups rows)));
          cols = sort (remdups (map snd (agged_groups rows)))
      in \<lparr>index = idx, wide_columns = cols,
          wide_cells = map (\<lambda>k. map (\<lambda>c. group_first rows k c) cols) idx\<rparr>)"

text \<open>The cell of a wide table at a key and a label; null when either is not there.\<close>

definition cell_at :: "('k, 'c, 'v) wide \<Rightarrow> 'k \<Rightarrow> 'c \<Rightarrow> 'v option" where
  "cell_at w k c =
     (case map_of (zip (index w) (wide_cells w)) k of
        None \<Rightarrow> None
      | Some row \<Rightarrow> (case map_of (zip (wide_columns w) row) c of None \<Rightarrow> None | Some v \<Rightarrow> v))"

subsection \<open>BanRep: \<open>consolidate\<close>\<close>

text \<open>
  \<^verbatim>\<open>
  tmp = df_long.copy()
  tmp["_col_"] = tmp.apply(
      lambda r: f"{r['flow_id']} :: {r['series_name']}" if pd.notna(r.get("series_name"))
                else f"{r['flow_id']} :: series", axis=1)
  idx = "date" if "date" in tmp.columns else "time"
  df_wide = tmp.pivot_table(index=idx, columns="_col_", values="value",
                            aggfunc="first").sort_index().reset_index()
  \<close>
  A row of \<open>df_long\<close> with the columns the pivot reads: \<open>date\<close> (a timestamp, or
  \<open>NaT\<close>), \<open>flow_id\<close>, \<open>series_name\<close> (or \<open><NA>\<close>) and \<open>value\<close> (a number, or
  \<open>NaN\<close>; the numbers are floats in the source, and the pivot only moves them).
  \<open>df_long\<close> always has its \<open>date\<close> column: \<open>load_one_flow_csv\<close> adds it.
\<close>

record long_row =
  date :: "int option"
  flow_id :: string
  series_name :: "string option"
  obs_value :: "int option"

definition col_label :: "long_row \<Rightarrow> string" where
  "col_label r =
     (case series_name r of
        Some s \<Rightarrow> flow_id r @ '' :: '' @ s
      | None \<Rightarrow> flow_id r @ '' :: series'')"

definition consolidate_wide :: "long_row list \<Rightarrow> (int, string, int) wide" where
  "consolidate_wide df_long =
     pivot_table_first (map (\<lambda>r. (date r, Some (col_label r), obs_value r)) df_long)"

subsection \<open>PWT: \<open>_build_views\<close>\<close>

text \<open>
  \<^verbatim>\<open>
  long = df.melt(id_vars=["iso","country","year"], value_vars=var_cols,
                 var_name="variable_code", value_name="value")
  long["variable_name"] = long["variable_code"].map(VAR_LABELS).fillna(long["variable_code"])
  vista_figura = (
      long.pivot_table(index=["iso","country","variable_code","variable_name"],
                       columns="year", values="value", aggfunc="first")
      .reset_index()
      .sort_values(["iso","variable_code"])
  )
  \<close>
  A row of the panel holds \<open>iso\<close>, \<open>country\<close> and \<open>year\<close> (each may be null) and
  the value of every variable column, in the order of \<open>var_cols\<close>. \<open>melt\<close> lists, variable by variable, one long row
  per panel row. The table of labels is a parameter. The entity key has four parts and
  is null when \<open>iso\<close> or \<open>country\<close> is. The \<open>sort_values\<close> at the end reorders the
  rows of the view and is left out.
\<close>

record panel_row =
  iso :: "string option"
  country :: "string option"
  year :: "int option"
  vars :: "int option list"

definition melt :: "string list \<Rightarrow> panel_row list
    \<Rightarrow> (string option \<times> string option \<times> int option \<times> string \<times> int option) list" where
  "melt var_cols df =
     concat (map (\<lambda>(j, code). map (\<lambda>r. (iso r, country r, year r, code, vars r ! j)) df)
               (zip [0..<length var_cols] var_cols))"

definition entity_key ::
  "(string \<rightharpoonup> string) \<Rightarrow> string option \<Rightarrow> string option \<Rightarrow> string
    \<Rightarrow> (string \<times> string \<times> string \<times> string) option" where
  "entity_key var_labels i c code =
     (case (i, c) of
        (Some i', Some c') \<Rightarrow>
          Some (i', c', code, (case var_labels code of None \<Rightarrow> code | Some nm \<Rightarrow> nm))
      | _ \<Rightarrow> None)"

definition vista_figura ::
  "(string \<rightharpoonup> string) \<Rightarrow> string list \<Rightarrow> panel_row list
    \<Rightarrow> (string \<times> string \<times> string \<times> string, int, int) wide" where
  "vista_figura var_labels var_cols df =
     pivot_table_first
       (map (\<lambda>(i, c, y, code, v). (entity_key var_labels i c code, y, v)) (melt var_cols df))"

text \<open>Long tables for examples: one series, with two dates.\<close>

definition obs :: "int \<Rightarrow> int option \<Rightarrow> long_row" where
  "obs d v = \<lparr>date = Some d, flow_id = ''TRM'', series_name = None, obs_value = v\<rparr>"

section \<open>Retry helpers against a failing source\<close>

lemma upt_0_Suc_map: "[0..<Suc n] = 0 # map Suc [0..<n]"
  by (metis map_Suc_upt upt_conv_Cons zero_less_Suc)

text \<open>
  Dane's loop against a source that always answers 503, from any iteration on: every
  iteration left issues one GET and one sleep, each sleep the double of the one before,
  and the \<open>raise_for_status\<close> after the loop raises.
\<close>

lemma retry_get_loop_all_503:
  assumes srv: "\<forall>k. \<exists>b. srv k = Response 503 b"
  shows "0 < n \<or> (\<exists>b. r_last = Some (503, b)) \<Longrightarrow>
    retry_get_loop srv n bo r_last tr =
      (Inl (HTTPError 503),
       \<lparr>gets = gets tr + n, sleeps = sleeps tr @ map (\<lambda>i. bo * 2 ^ i) [0..<n]\<rparr>)"
proof (induction n arbitrary: bo r_last tr)
  case 0
  then show ?case by (auto simp: raises_for_status_def)
next
  case (Suc n)
  obtain b where b: "srv (gets tr) = Response 503 b" using srv by blast
  have "retry_get_loop srv (Suc n) bo r_last tr =
        retry_get_loop srv n (bo * 2) (Some (503, b)) (sleep bo (issue_get tr))"
    using b by (simp add: retryable_def)
  also have "\<dots> = (Inl (HTTPError 503),
      \<lparr>gets = gets (sleep bo (issue_get tr)) + n,
       sleeps = sleeps (sleep bo (issue_get tr)) @ map (\<lambda>i. (bo * 2) * 2 ^ i) [0..<n]\<rparr>)"
    by (rule Suc.IH) simp
  finally show ?case
    by (simp add: sleep_def issue_get_def upt_0_Suc_map comp_def mult.assoc del: upt_Suc)
qed

text \<open>
  SiMEM's loop against the same source, from attempt \<open>a\<close> on: one GET per attempt
  left, a sleep of \<open>backoff * attempt\<close> after every attempt but the last.
\<close>

lemma http_attempts_all_503:
  assumes srv: "\<forall>k. \<exists>b. srv k = Response 503 b" and bo: "0 \<le> bo"
  shows "1 \<le> a \<Longrightarrow> a \<le> m \<Longrightarrow>
    http_attempts srv m bo [a..m] last_exc tr =
      (Inl (RuntimeError_HTTP 503),
       \<lparr>gets = gets tr + nat (m + 1 - a), sleeps = sleeps tr @ map (\<lambda>x. bo * x) [a..m - 1]\<rparr>)"
proof (induction "nat (m - a)" arbitrary: a last_exc tr)
  case 0
  then have am: "a = m" by simp
  obtain b where b: "srv (gets tr) = Response 503 b" using srv by blast
  show ?case using b by (simp add: am issue_get_def)
next
  case (Suc n)
  then have lt: "a < m" by linarith
  obtain b where b: "srv (gets tr) = Response 503 b" using srv by blast
  have nn: "\<not> bo * a < 0" using bo Suc.prems by (simp add: mult_nonneg_nonneg not_less)
  have up: "[a..m] = a # [a + 1..m]" by (rule upto_rec1) (use lt in simp)
  have up2: "[a..m - 1] = a # [a + 1..m - 1]" by (rule upto_rec1) (use lt in simp)
  have step: "http_attempts srv m bo (a # [a + 1..m]) last_exc tr =
        http_attempts srv m bo [a + 1..m] (Some (RuntimeError_HTTP 503))
          (sleep (bo * a) (issue_get tr))"
    using b lt nn by simp
  have n: "n = nat (m - (a + 1))" using Suc.hyps(2) by linarith
  have ih: "http_attempts srv m bo [a + 1..m] (Some (RuntimeError_HTTP 503))
              (sleep (bo * a) (issue_get tr))
     = (Inl (RuntimeError_HTTP 503),
       \<lparr>gets = gets (sleep (bo * a) (issue_get tr)) + nat (m + 1 - (a + 1)),
        sleeps = sleeps (sleep (bo * a) (issue_get tr)) @ map (\<lambda>x. bo * x) [a + 1..m - 1]\<rparr>)"
    by (rule Suc.hyps(1)[OF n]) (use Suc.prems lt in simp_all)
  have g: "Suc (nat (m - a)) = nat (m + 1 - a)" using lt by linarith
  show ?case unfolding up up2 step ih using g
    by (simp add: sleep_def issue_get_def)
qed

text \<open>Every attempt of SiMEM's loop issues its GET: the count never goes down.\<close>

lemma http_attempts_gets_mono:
  "gets tr \<le> gets (snd (http_attempts srv m bo as last_exc tr))"
proof (induction as arbitrary: last_exc tr)
  case Nil
  show ?case by (simp split: option.splits)
next
  case (Cons a as)
  have 1: "gets tr \<le> gets (snd (http_attempts srv m bo as e (sleep d (issue_get tr))))" for e d
    using Cons.IH[where last_exc = e and tr = "sleep d (issue_get tr)"]
    by (simp add: sleep_def issue_get_def)
  have 2: "gets tr \<le> gets (snd (http_attempts srv m bo as e (issue_get tr)))" for e
    using Cons.IH[where last_exc = e and tr = "issue_get tr"] by (simp add: issue_get_def)
  show ?case
    by (cases "srv (gets tr)") (simp_all add: 1 2, simp_all add: issue_get_def)
qed

lemma http_attempts_issues_get:
  "as \<noteq> [] \<Longrightarrow> Suc (gets tr) \<le> gets (snd (http_attempts srv m bo as last_exc tr))"
proof (cases as)
  case Nil
  then show "as \<noteq> [] \<Longrightarrow> ?thesis" by simp
next
  case (Cons a rest)
  have 1: "Suc (gets tr) \<le> gets (snd (http_attempts srv m bo rest e (sleep d (issue_get tr))))"
    for e d
    using http_attempts_gets_mono[where tr = "sleep d (issue_get tr)" and as = rest and last_exc = e]
    by (simp add: sleep_def issue_get_def)
  have 2: "Suc (gets tr) \<le> gets (snd (http_attempts srv m bo rest e (issue_get tr)))" for e
    using http_attempts_gets_mono[where tr = "issue_get tr" and as = rest and last_exc = e]
    by (simp add: issue_get_def)
  show ?thesis unfolding Cons
    by (cases "srv (gets tr)") (simp_all add: 1 2, simp_all add: issue_get_def)
qed

text \<open>The first iteration of Dane's loop, case by case.\<close>

lemma retry_get_first:
  "retry_get srv =
     (case srv 0 of
        Transport_Failure \<Rightarrow> (Inl ConnectionError, \<lparr>gets = 1, sleeps = []\<rparr>)
      | Response s b \<Rightarrow>
          if s < 400 then (Inr (s, b), \<lparr>gets = 1, sleeps = []\<rparr>)
          else if retryable s then
            retry_get_loop srv 4 2 (Some (s, b)) \<lparr>gets = 1, sleeps = [1]\<rparr>
          else if raises_for_status s then (Inl (HTTPError s), \<lparr>gets = 1, sleeps = []\<rparr>)
          else retry_get_loop srv 4 1 (Some (s, b)) \<lparr>gets = 1, sleeps = []\<rparr>)"
proof -
  have "retry_get srv = retry_get_loop srv (Suc 4) 1 None trace0"
    by (simp add: retry_get_def)
  also have "\<dots> =
     (case srv (gets trace0) of
        Transport_Failure \<Rightarrow> (Inl ConnectionError, issue_get trace0)
      | Response s b \<Rightarrow>
          if s < 400 then (Inr (s, b), issue_get trace0)
          else if retryable s then
            retry_get_loop srv 4 (1 * 2) (Some (s, b)) (sleep 1 (issue_get trace0))
          else if raises_for_status s then (Inl (HTTPError s), issue_get trace0)
          else retry_get_loop srv 4 1 (Some (s, b)) (issue_get trace0))"
    by (simp only: retry_get_loop.simps)
  finally show ?thesis
    by (simp add: trace0_def issue_get_def sleep_def split: http_result.splits)
qed

text \<open>The first attempt of SiMEM's loop when the response is not a 2xx.\<close>

lemma http_get_with_retries_second_get:
  assumes m: "2 \<le> m" and bo: "0 \<le> bo"
    and first: "srv 0 = Transport_Failure \<or> (\<exists>s b. srv 0 = Response s b \<and> \<not> (200 \<le> s \<and> s < 300))"
  shows "2 \<le> gets (snd (http_get_with_retries srv m bo))"
proof -
  have up: "[1..m] = 1 # [2..m]" using upto_rec1[of 1 m] m by simp
  have ne: "[2..m] \<noteq> []" using m by simp
  have nn: "\<not> bo * 1 < 0" using bo by simp
  have lt: "(1::int) < m" using m by simp
  obtain e where step: "http_attempts srv m bo (1 # [2..m]) None trace0 =
      http_attempts srv m bo [2..m] (Some e) (sleep (bo * 1) (issue_get trace0))"
    using first lt nn by (auto simp: trace0_def)
  have "Suc (gets (sleep (bo * 1) (issue_get trace0)))
      \<le> gets (snd (http_attempts srv m bo [2..m] (Some e) (sleep (bo * 1) (issue_get trace0))))"
    by (rule http_attempts_issues_get[OF ne])
  then show ?thesis unfolding http_get_with_retries_def up step
    by (simp add: sleep_def issue_get_def trace0_def)
qed


lemma upto_from_1: "[1..numeral n] = 1 # [2..numeral n]"
  using upto_rec1[of 1 "numeral n"] by simp

subsection \<open>Retry bound\<close>

text \<open>
  Claim C3, as the code has it. Against a source that always answers 503:
  \<^item> Dane's \<open>_retry_get\<close> issues exactly 5 GETs (the bound is fixed), sleeps 1, 2, 4, 8
    and 16 seconds (a doubling sequence from the fixed first delay of one second, one
    sleep after every attempt, the last included), then raises the HTTP error of status 503;
  \<^item> SiMEM's \<open>_http_get_with_retries\<close>, for \<open>max_retries \<ge> 1\<close> and a backoff that is
    not negative, issues exactly \<open>max_retries\<close> GETs, sleeps \<open>backoff * attempt\<close>
    after every attempt but the last (the delays grow linearly, they do not double), then
    raises the error that carries status 503.
\<close>

theorem retry_bound_503:
  "(\<forall>k. \<exists>b. srv k = Response 503 b) \<longrightarrow>
     retry_get srv = (Inl (HTTPError 503), \<lparr>gets = 5, sleeps = [1, 2, 4, 8, 16]\<rparr>)
     \<and> follows_doubling 1 (sleeps (snd (retry_get srv)))
     \<and> (1 \<le> m \<and> 0 \<le> bo \<longrightarrow>
          http_get_with_retries srv m bo =
            (Inl (RuntimeError_HTTP 503),
             \<lparr>gets = nat m, sleeps = map (\<lambda>attempt. bo * attempt) [1..m - 1]\<rparr>))"
proof (intro impI conjI)
  assume srv: "\<forall>k. \<exists>b. srv k = Response 503 b"
  have "retry_get srv = (Inl (HTTPError 503),
       \<lparr>gets = gets trace0 + 5, sleeps = sleeps trace0 @ map (\<lambda>i. 1 * 2 ^ i) [0..<5]\<rparr>)"
    unfolding retry_get_def by (rule retry_get_loop_all_503[OF srv]) simp
  then show r: "retry_get srv = (Inl (HTTPError 503), \<lparr>gets = 5, sleeps = [1, 2, 4, 8, 16]\<rparr>)"
    by (simp add: trace0_def eval_nat_numeral upt_0_Suc_map del: upt_Suc)
  show "follows_doubling 1 (sleeps (snd (retry_get srv)))"
    unfolding r by (simp add: follows_doubling_def doubling_def eval_nat_numeral upt_0_Suc_map del: upt_Suc)
  assume mb: "1 \<le> m \<and> 0 \<le> bo"
  have "http_get_with_retries srv m bo = (Inl (RuntimeError_HTTP 503),
       \<lparr>gets = gets trace0 + nat (m + 1 - 1),
        sleeps = sleeps trace0 @ map (\<lambda>x. bo * x) [1..m - 1]\<rparr>)"
    unfolding http_get_with_retries_def
    by (rule http_attempts_all_503[OF srv]) (use mb in simp_all)
  then show "http_get_with_retries srv m bo =
            (Inl (RuntimeError_HTTP 503),
             \<lparr>gets = nat m, sleeps = map (\<lambda>attempt. bo * attempt) [1..m - 1]\<rparr>)"
    by (simp add: trace0_def)
qed

text \<open>The theorem at the always-503 source, with four attempts and a backoff of 2 for SiMEM.\<close>

theorem retry_bound_503_witness:
  "retry_get (always 503 :: nat \<Rightarrow> unit http_result)
     = (Inl (HTTPError 503), \<lparr>gets = 5, sleeps = [1, 2, 4, 8, 16]\<rparr>)
   \<and> http_get_with_retries (always 503 :: nat \<Rightarrow> unit http_result) 4 2
     = (Inl (RuntimeError_HTTP 503), \<lparr>gets = 4, sleeps = [2, 4, 6]\<rparr>)"
  using retry_bound_503[of "always 503 :: nat \<Rightarrow> unit http_result" 4 2]
  by (simp add: always_def upto_from_1)

text \<open>
  Claim C3 as stated fails for SiMEM's helper: with four attempts and a configured first
  delay of 2 seconds the delays are 2, 4, 6, which is no doubling sequence from 2.
\<close>

theorem retry_bound_503_counterexample:
  "\<not> follows_doubling 2
       (sleeps (snd (http_get_with_retries (always 503 :: nat \<Rightarrow> unit http_result) 4 2)))"
  by (simp add: http_get_with_retries_def always_def trace0_def issue_get_def sleep_def
      follows_doubling_def doubling_def upto_from_1)

subsection \<open>Client errors\<close>

text \<open>Dane's loop issues at most as many GETs as it has iterations left.\<close>

lemma retry_get_loop_gets_mono:
  "gets tr \<le> gets (snd (retry_get_loop srv n bo r_last tr))"
proof (induction n arbitrary: bo r_last tr)
  case 0
  show ?case by (simp split: option.splits prod.splits)
next
  case (Suc n)
  have 1: "gets tr \<le> gets (snd (retry_get_loop srv n b l (sleep d (issue_get tr))))" for b l d
    using Suc.IH[where tr = "sleep d (issue_get tr)" and bo = b and r_last = l]
    by (simp add: sleep_def issue_get_def)
  have 2: "gets tr \<le> gets (snd (retry_get_loop srv n b l (issue_get tr)))" for b l
    using Suc.IH[where tr = "issue_get tr" and bo = b and r_last = l]
    by (simp add: issue_get_def)
  show ?case
    by (cases "srv (gets tr)") (simp_all add: 1 2, simp_all add: issue_get_def)
qed

lemma retry_get_loop_gets_bound:
  "gets (snd (retry_get_loop srv n bo r_last tr)) \<le> gets tr + n"
proof (induction n arbitrary: bo r_last tr)
  case 0
  show ?case by (simp split: option.splits prod.splits)
next
  case (Suc n)
  have 1: "gets (snd (retry_get_loop srv n b l (sleep d (issue_get tr)))) \<le> Suc (gets tr + n)"
    for b l d
    using Suc.IH[where tr = "sleep d (issue_get tr)" and bo = b and r_last = l]
    by (simp add: sleep_def issue_get_def)
  have 2: "gets (snd (retry_get_loop srv n b l (issue_get tr))) \<le> Suc (gets tr + n)" for b l
    using Suc.IH[where tr = "issue_get tr" and bo = b and r_last = l]
    by (simp add: issue_get_def)
  show ?case
    by (cases "srv (gets tr)") (simp_all add: 1 2, simp_all add: issue_get_def)
qed

text \<open>Dane: what the loop does with the outcome of GET number \<open>k\<close>.\<close>

lemma retry_get_loop_at:
  assumes "gets tr \<le> k"
  shows "(Suc k < gets (snd (retry_get_loop srv n bo r_last tr)) \<longrightarrow>
           (\<exists>s b. srv k = Response s b \<and> (retryable s \<or> 600 \<le> s)))
       \<and> (k < gets (snd (retry_get_loop srv n bo r_last tr)) \<longrightarrow>
           (\<forall>s b. srv k = Response s b \<and> raises_for_status s \<and> \<not> retryable s \<longrightarrow>
              fst (retry_get_loop srv n bo r_last tr) = Inl (HTTPError s)
              \<and> gets (snd (retry_get_loop srv n bo r_last tr)) = Suc k)
           \<and> (srv k = Transport_Failure \<longrightarrow>
              fst (retry_get_loop srv n bo r_last tr) = Inl ConnectionError
              \<and> gets (snd (retry_get_loop srv n bo r_last tr)) = Suc k)
           \<and> (\<forall>s b. srv k = Response s b \<and> s < 400 \<longrightarrow>
              fst (retry_get_loop srv n bo r_last tr) = Inr (s, b)
              \<and> gets (snd (retry_get_loop srv n bo r_last tr)) = Suc k)
           \<and> (\<forall>s b. srv k = Response s b \<and> retryable s \<and> k + 1 < gets tr + n \<longrightarrow>
              Suc k < gets (snd (retry_get_loop srv n bo r_last tr))))"
  using assms
proof (induction n arbitrary: bo r_last tr)
  case 0
  then show ?case by (simp split: option.splits prod.splits)
next
  case (Suc n)
  show ?case
  proof (cases "k = gets tr")
    case True
    have m1: "Suc (gets tr) \<le> gets (snd (retry_get_loop srv n b l (sleep d (issue_get tr))))"
      for b l d
      using retry_get_loop_gets_mono[where tr = "sleep d (issue_get tr)" and bo = b
          and r_last = l and n = n and srv = srv]
      by (simp add: sleep_def issue_get_def)
    have m2: "Suc (gets tr) \<le> gets (snd (retry_get_loop srv n b l (issue_get tr)))" for b l
      using retry_get_loop_gets_mono[where tr = "issue_get tr" and bo = b
          and r_last = l and n = n and srv = srv]
      by (simp add: issue_get_def)
    have r: "Suc (Suc (gets tr)) \<le> gets (snd (retry_get_loop srv n b l (sleep d (issue_get tr))))"
      if "0 < n" for b l d
    proof -
      from that have "\<exists>n'. n = Suc n'" by (cases n) auto
      then obtain n' where n': "n = Suc n'" by blast
      have "Suc (gets (sleep d (issue_get tr)))
          \<le> gets (snd (retry_get_loop srv (Suc n') b l (sleep d (issue_get tr))))"
      proof (cases "srv (gets (sleep d (issue_get tr)))")
        case Transport_Failure
        then show ?thesis by (simp add: issue_get_def)
      next
        case (Response s' b')
        have a: "Suc (gets t) \<le> gets (snd (retry_get_loop srv n' x y (sleep z (issue_get t))))"
          for t x y z
          using retry_get_loop_gets_mono[where tr = "sleep z (issue_get t)" and bo = x
              and r_last = y and n = n' and srv = srv]
          by (simp add: sleep_def issue_get_def)
        have b: "Suc (gets t) \<le> gets (snd (retry_get_loop srv n' x y (issue_get t)))"
          for t x y
          using retry_get_loop_gets_mono[where tr = "issue_get t" and bo = x
              and r_last = y and n = n' and srv = srv]
          by (simp add: issue_get_def)
        show ?thesis using Response by (simp add: a b) (simp add: issue_get_def)
      qed
      then show ?thesis unfolding n' by (simp add: sleep_def issue_get_def)
    qed
    show ?thesis
    proof (cases "srv (gets tr)")
      case Transport_Failure
      then show ?thesis using True by (simp add: issue_get_def)
    next
      case (Response s b)
      then show ?thesis using True r[of "bo * 2" "Some (s, b)" bo] m1 m2
        by (auto simp: issue_get_def raises_for_status_def retryable_def)
    qed
  next
    case False
    then have lt: "gets tr < k" using Suc.prems by simp
    have i1: "gets (sleep d (issue_get tr)) \<le> k" for d
      using lt by (simp add: sleep_def issue_get_def)
    have i2: "gets (issue_get tr) \<le> k" using lt by (simp add: issue_get_def)
    have g1: "gets (sleep d (issue_get tr)) + n = gets tr + Suc n" for d
      by (simp add: sleep_def issue_get_def)
    have g2: "gets (issue_get tr) + n = gets tr + Suc n" by (simp add: issue_get_def)
    show ?thesis
    proof (cases "srv (gets tr)")
      case Transport_Failure
      then show ?thesis using lt by (simp add: issue_get_def)
    next
      case (Response s b)
      show ?thesis
      proof (cases "s < 400")
        case True
        then show ?thesis using Response lt by (simp add: issue_get_def)
      next
        case ge: False
        show ?thesis
        proof (cases "retryable s")
          case True
          have e: "retry_get_loop srv (Suc n) bo r_last tr
              = retry_get_loop srv n (bo * 2) (Some (s, b)) (sleep bo (issue_get tr))"
            using Response ge True by simp
          show ?thesis unfolding e
            using Suc.IH[OF i1, of "bo * 2" "Some (s, b)" bo] unfolding g1 .
        next
          case nr: False
          show ?thesis
          proof (cases "raises_for_status s")
            case True
            then show ?thesis using Response ge nr lt by (simp add: issue_get_def)
          next
            case False
            have e: "retry_get_loop srv (Suc n) bo r_last tr
                = retry_get_loop srv n bo (Some (s, b)) (issue_get tr)"
              using Response ge nr False by simp
            show ?thesis unfolding e
              using Suc.IH[OF i2, of bo "Some (s, b)"] unfolding g2 .
          qed
        qed
      qed
    qed
  qed
qed

lemma retry_get_at:
  "(Suc k < gets (snd (retry_get srv)) \<longrightarrow>
           (\<exists>s b. srv k = Response s b \<and> (retryable s \<or> 600 \<le> s)))
       \<and> (k < gets (snd (retry_get srv)) \<longrightarrow>
           (\<forall>s b. srv k = Response s b \<and> raises_for_status s \<and> \<not> retryable s \<longrightarrow>
              fst (retry_get srv) = Inl (HTTPError s)
              \<and> gets (snd (retry_get srv)) = Suc k)
           \<and> (srv k = Transport_Failure \<longrightarrow>
              fst (retry_get srv) = Inl ConnectionError
              \<and> gets (snd (retry_get srv)) = Suc k)
           \<and> (\<forall>s b. srv k = Response s b \<and> s < 400 \<longrightarrow>
              fst (retry_get srv) = Inr (s, b)
              \<and> gets (snd (retry_get srv)) = Suc k)
           \<and> (\<forall>s b. srv k = Response s b \<and> retryable s \<and> k < 4 \<longrightarrow>
              Suc k < gets (snd (retry_get srv))))"
proof -
  have k0: "gets trace0 \<le> k" by (simp add: trace0_def)
  have e: "(k + 1 < gets trace0 + 5) = (k < 4)" by (auto simp: trace0_def)
  show ?thesis
    unfolding retry_get_def
    by (rule retry_get_loop_at[OF k0, where srv = srv and n = 5 and bo = 1 and r_last = None,
          unfolded e])
qed

text \<open>SiMEM: what the loop does with the outcome of GET number \<open>k\<close>.\<close>

lemma http_attempts_step:
  assumes "0 \<le> bo" "0 \<le> a"
  shows "(\<exists>s b. srv (gets tr) = Response s b \<and> 200 \<le> s \<and> s < 300
           \<and> http_attempts srv m bo (a # as) last_exc tr = (Inr (s, b), issue_get tr))
         \<or> (\<exists>e d. http_attempts srv m bo (a # as) last_exc tr
                = http_attempts srv m bo as (Some e) (sleep d (issue_get tr))
              \<and> \<not> (\<exists>s b. srv (gets tr) = Response s b \<and> 200 \<le> s \<and> s < 300))
         \<or> (\<exists>e. http_attempts srv m bo (a # as) last_exc tr
                = http_attempts srv m bo as (Some e) (issue_get tr)
              \<and> \<not> (\<exists>s b. srv (gets tr) = Response s b \<and> 200 \<le> s \<and> s < 300))"
proof -
  have nn: "\<not> bo * a < 0" using assms by (simp add: mult_less_0_iff)
  show ?thesis
  proof (cases "srv (gets tr)")
    case Transport_Failure
    then show ?thesis using nn by auto
  next
    case (Response s' b')
    then show ?thesis using nn by (cases "200 \<le> s' \<and> s' < 300") auto
  qed
qed

lemma http_attempts_gets_bound:
  "gets (snd (http_attempts srv m bo as last_exc tr)) \<le> gets tr + length as"
proof (induction as arbitrary: last_exc tr)
  case Nil
  show ?case by (simp split: option.splits)
next
  case (Cons a as)
  have 1: "gets (snd (http_attempts srv m bo as e (sleep d (issue_get tr))))
      \<le> Suc (gets tr + length as)" for e d
    using Cons.IH[where last_exc = e and tr = "sleep d (issue_get tr)"]
    by (simp add: sleep_def issue_get_def)
  have 2: "gets (snd (http_attempts srv m bo as e (issue_get tr)))
      \<le> Suc (gets tr + length as)" for e
    using Cons.IH[where last_exc = e and tr = "issue_get tr"] by (simp add: issue_get_def)
  show ?case
    by (cases "srv (gets tr)") (simp_all add: 1 2, simp_all add: issue_get_def)
qed

lemma http_attempts_at:
  assumes "0 \<le> bo" "\<forall>a \<in> set as. 0 \<le> a" "gets tr \<le> k"
  shows "gets (snd (http_attempts srv m bo as last_exc tr)) \<le> gets tr + length as
       \<and> (k < gets (snd (http_attempts srv m bo as last_exc tr)) \<longrightarrow>
            (\<forall>s b. srv k = Response s b \<and> 200 \<le> s \<and> s < 300 \<longrightarrow>
               fst (http_attempts srv m bo as last_exc tr) = Inr (s, b)
               \<and> gets (snd (http_attempts srv m bo as last_exc tr)) = Suc k)
            \<and> (\<not> (\<exists>s b. srv k = Response s b \<and> 200 \<le> s \<and> s < 300)
                 \<and> Suc k < gets tr + length as \<longrightarrow>
               Suc k < gets (snd (http_attempts srv m bo as last_exc tr))))"
  using assms(2,3)
proof (induction as arbitrary: last_exc tr)
  case Nil
  then show ?case by (simp split: option.splits)
next
  case (Cons a as)
  have a0: "0 \<le> a" and as0: "\<forall>a \<in> set as. 0 \<le> a" using Cons.prems(1) by simp_all
  let ?R = "http_attempts srv m bo (a # as) last_exc tr"
  have g1: "gets (sleep d (issue_get tr)) = Suc (gets tr)" for d
    by (simp add: sleep_def issue_get_def)
  have g2: "gets (issue_get tr) = Suc (gets tr)" by (simp add: issue_get_def)
  from http_attempts_step[OF assms(1) a0, where srv = srv and tr = tr and m = m
      and as = as and last_exc = last_exc]
  consider
    (ok) s b where "srv (gets tr) = Response s b" "200 \<le> s" "s < 300"
      "?R = (Inr (s, b), issue_get tr)"
  | (again) tr' e where "?R = http_attempts srv m bo as (Some e) tr'"
      "gets tr' = Suc (gets tr)"
      "\<not> (\<exists>s b. srv (gets tr) = Response s b \<and> 200 \<le> s \<and> s < 300)"
    using g1 g2 by blast
  then show ?case
  proof cases
    case ok
    have "k < Suc (gets tr) \<Longrightarrow> k = gets tr" using Cons.prems(2) by simp
    then show ?thesis using ok by (auto simp: issue_get_def)
  next
    case again
    show ?thesis
    proof (cases "k = gets tr")
      case True
      have mono: "gets tr' \<le> gets (snd (http_attempts srv m bo as (Some e) tr'))"
        by (rule http_attempts_gets_mono)
      have nxt: "as \<noteq> [] \<Longrightarrow>
          Suc (gets tr') \<le> gets (snd (http_attempts srv m bo as (Some e) tr'))"
        by (rule http_attempts_issues_get)
      have bound: "gets (snd (http_attempts srv m bo as (Some e) tr')) \<le> gets tr' + length as"
        by (rule http_attempts_gets_bound)
      show ?thesis unfolding again(1)
        using True again(2,3) mono nxt bound by (cases as) auto
    next
      case False
      then have "gets tr' \<le> k" using Cons.prems(2) again(2) by simp
      have e: "gets tr' + length as = gets tr + length (a # as)" using again(2) by simp
      show ?thesis unfolding again(1)
        using Cons.IH[OF as0 \<open>gets tr' \<le> k\<close>, where last_exc = "Some e"] unfolding e .
    qed
  qed
qed

lemma http_get_with_retries_at:
  assumes "0 \<le> bo"
  shows "gets (snd (http_get_with_retries srv m bo)) \<le> nat m
       \<and> (k < gets (snd (http_get_with_retries srv m bo)) \<longrightarrow>
            (\<forall>s b. srv k = Response s b \<and> 200 \<le> s \<and> s < 300 \<longrightarrow>
               fst (http_get_with_retries srv m bo) = Inr (s, b)
               \<and> gets (snd (http_get_with_retries srv m bo)) = Suc k)
            \<and> (\<not> (\<exists>s b. srv k = Response s b \<and> 200 \<le> s \<and> s < 300)
                 \<and> int k + 1 < m \<longrightarrow>
               Suc k < gets (snd (http_get_with_retries srv m bo))))"
proof -
  have pos: "\<forall>a \<in> set [1..m]. 0 \<le> a" by simp
  have k0: "gets trace0 \<le> k" by (simp add: trace0_def)
  have e1: "gets trace0 + length [1..m] = nat m" by (simp add: trace0_def)
  have e2: "(Suc k < nat m) = (int k + 1 < m)" by auto
  show ?thesis
    unfolding http_get_with_retries_def
    by (rule http_attempts_at[OF assms pos k0, where srv = srv and m = m and last_exc = None,
          unfolded e1 e2])
qed

text \<open>The two helpers against scripted sources.\<close>

lemma retry_scripted:
  "retry_get (scripted [503, 404] :: nat \<Rightarrow> unit http_result)
     = (Inl (HTTPError 404), \<lparr>gets = 2, sleeps = [1]\<rparr>)"
  "retry_get (scripted [503, 503] :: nat \<Rightarrow> unit http_result)
     = (Inr (200, None), \<lparr>gets = 3, sleeps = [1, 2]\<rparr>)"
  "http_get_with_retries (scripted [503, 404] :: nat \<Rightarrow> unit http_result) 4 2
     = (Inr (200, None), \<lparr>gets = 3, sleeps = [2, 4]\<rparr>)"
  "retry_get (scripted_then_down [503])
     = (Inl ConnectionError, \<lparr>gets = 2, sleeps = [1]\<rparr>)"
  "(scripted [503, 404] :: nat \<Rightarrow> unit http_result) 1 = Response 404 None"
  "(scripted [503, 404] :: nat \<Rightarrow> unit http_result) 2 = Response 200 None"
  "(scripted [503, 503] :: nat \<Rightarrow> unit http_result) 1 = Response 503 None"
  "scripted_then_down [503] 1 = Transport_Failure"
  "(scripted [503, 404] :: nat \<Rightarrow> unit http_result) (Suc 0) = Response 404 None"
  "(scripted [503, 503] :: nat \<Rightarrow> unit http_result) (Suc 0) = Response 503 None"
  "scripted_then_down [503] (Suc 0) = Transport_Failure"
  by code_simp+

text \<open>
  Claim C2, as the code has it, for the GET number \<open>k\<close> of a call, counted from 0,
  whatever the outcomes of the GETs before it. In Dane's \<open>_retry_get\<close>, a 4xx
  response other than 429 to that GET ends the call with its HTTP error, and a
  transport-level failure of that GET ends the call with the failure: in both cases it
  is the last GET of the call (for the first GET: no sleep either). A GET is followed by
  a further one only if it was answered 429, 500, 502, 503 or 504, or by a status of 600
  or more, which \<open>raise_for_status\<close> lets pass; after one of the five statuses a further
  GET follows whenever the GET was not the fifth; no call issues more than five. In
  SiMEM's \<open>_http_get_with_retries\<close>, with a backoff that is not negative, every GET
  whose outcome is not a 2xx response, a 4xx response and a transport-level failure
  included, is followed by a further GET as long as it was not the last of the
  \<open>max_retries\<close> attempts; a 2xx response ends the call with that response; no call
  issues more than \<open>max_retries\<close> GETs.
\<close>

theorem fatal_4xx:
  "(srv 0 = Response s b \<and> 400 \<le> s \<and> s < 500 \<and> s \<noteq> 429 \<longrightarrow>
      retry_get srv = (Inl (HTTPError s), \<lparr>gets = 1, sleeps = []\<rparr>))
   \<and> (srv 0 = Transport_Failure \<longrightarrow>
      retry_get srv = (Inl ConnectionError, \<lparr>gets = 1, sleeps = []\<rparr>))
   \<and> (1 < gets (snd (retry_get srv)) \<longrightarrow>
      (\<exists>s b. srv 0 = Response s b \<and> (retryable s \<or> 600 \<le> s)))
   \<and> (2 \<le> m \<and> 0 \<le> bo \<and> srv 0 = Response s b \<and> \<not> (200 \<le> s \<and> s < 300) \<longrightarrow>
      2 \<le> gets (snd (http_get_with_retries srv m bo)))
   \<and> (2 \<le> m \<and> 0 \<le> bo \<and> srv 0 = Transport_Failure \<longrightarrow>
      2 \<le> gets (snd (http_get_with_retries srv m bo)))
   \<and> (k < gets (snd (retry_get srv)) \<and> srv k = Response s b
        \<and> 400 \<le> s \<and> s < 500 \<and> s \<noteq> 429 \<longrightarrow>
      fst (retry_get srv) = Inl (HTTPError s) \<and> gets (snd (retry_get srv)) = Suc k)
   \<and> (k < gets (snd (retry_get srv)) \<and> srv k = Transport_Failure \<longrightarrow>
      fst (retry_get srv) = Inl ConnectionError \<and> gets (snd (retry_get srv)) = Suc k)
   \<and> (Suc k < gets (snd (retry_get srv)) \<longrightarrow>
      (\<exists>s b. srv k = Response s b \<and> (retryable s \<or> 600 \<le> s)))
   \<and> (k < gets (snd (retry_get srv)) \<and> srv k = Response s b \<and> retryable s \<and> k < 4 \<longrightarrow>
      Suc k < gets (snd (retry_get srv)))
   \<and> gets (snd (retry_get srv)) \<le> 5
   \<and> (0 \<le> bo \<and> k < gets (snd (http_get_with_retries srv m bo))
        \<and> \<not> (\<exists>s b. srv k = Response s b \<and> 200 \<le> s \<and> s < 300) \<and> int k + 1 < m \<longrightarrow>
      Suc k < gets (snd (http_get_with_retries srv m bo)))
   \<and> (0 \<le> bo \<and> k < gets (snd (http_get_with_retries srv m bo))
        \<and> srv k = Response s b \<and> 200 \<le> s \<and> s < 300 \<longrightarrow>
      fst (http_get_with_retries srv m bo) = Inr (s, b)
      \<and> gets (snd (http_get_with_retries srv m bo)) = Suc k)
   \<and> gets (snd (http_get_with_retries srv m bo)) \<le> nat m"
proof (intro conjI impI)
  assume "srv 0 = Response s b \<and> 400 \<le> s \<and> s < 500 \<and> s \<noteq> 429"
  then show "retry_get srv = (Inl (HTTPError s), \<lparr>gets = 1, sleeps = []\<rparr>)"
    by (simp add: retry_get_first retryable_def raises_for_status_def)
next
  assume "srv 0 = Transport_Failure"
  then show "retry_get srv = (Inl ConnectionError, \<lparr>gets = 1, sleeps = []\<rparr>)"
    by (simp add: retry_get_first)
next
  assume "1 < gets (snd (retry_get srv))"
  then show "\<exists>s b. srv 0 = Response s b \<and> (retryable s \<or> 600 \<le> s)"
    by (cases "srv 0") (auto simp: retry_get_first raises_for_status_def split: if_splits)
next
  assume "2 \<le> m \<and> 0 \<le> bo \<and> srv 0 = Response s b \<and> \<not> (200 \<le> s \<and> s < 300)"
  then show "2 \<le> gets (snd (http_get_with_retries srv m bo))"
    by (intro http_get_with_retries_second_get) auto
next
  assume "2 \<le> m \<and> 0 \<le> bo \<and> srv 0 = Transport_Failure"
  then show "2 \<le> gets (snd (http_get_with_retries srv m bo))"
    by (intro http_get_with_retries_second_get) auto
next
  assume h: "k < gets (snd (retry_get srv)) \<and> srv k = Response s b
        \<and> 400 \<le> s \<and> s < 500 \<and> s \<noteq> 429"
  then have "raises_for_status s \<and> \<not> retryable s"
    by (auto simp: raises_for_status_def retryable_def)
  with h retry_get_at[of k srv]
  show "fst (retry_get srv) = Inl (HTTPError s)" "gets (snd (retry_get srv)) = Suc k"
    by blast+
next
  assume "k < gets (snd (retry_get srv)) \<and> srv k = Transport_Failure"
  with retry_get_at[of k srv]
  show "fst (retry_get srv) = Inl ConnectionError" "gets (snd (retry_get srv)) = Suc k"
    by blast+
next
  assume "Suc k < gets (snd (retry_get srv))"
  with retry_get_at[of k srv]
  show "\<exists>s b. srv k = Response s b \<and> (retryable s \<or> 600 \<le> s)" by blast
next
  assume "k < gets (snd (retry_get srv)) \<and> srv k = Response s b \<and> retryable s \<and> k < 4"
  with retry_get_at[of k srv]
  show "Suc k < gets (snd (retry_get srv))" by blast
next
  show "gets (snd (retry_get srv)) \<le> 5"
    using retry_get_loop_gets_bound[of srv 5 1 None trace0]
    by (simp add: retry_get_def trace0_def)
next
  assume "0 \<le> bo \<and> k < gets (snd (http_get_with_retries srv m bo))
        \<and> \<not> (\<exists>s b. srv k = Response s b \<and> 200 \<le> s \<and> s < 300) \<and> int k + 1 < m"
  then show "Suc k < gets (snd (http_get_with_retries srv m bo))"
    using http_get_with_retries_at[of bo srv m k] by blast
next
  assume h: "0 \<le> bo \<and> k < gets (snd (http_get_with_retries srv m bo))
        \<and> srv k = Response s b \<and> 200 \<le> s \<and> s < 300"
  with http_get_with_retries_at[of bo srv m k]
  show "fst (http_get_with_retries srv m bo) = Inr (s, b)"
    "gets (snd (http_get_with_retries srv m bo)) = Suc k"
    by blast+
next
  show "gets (snd (http_get_with_retries srv m bo)) \<le> nat m"
    using http_attempts_gets_bound[of srv m bo "[1..m]" None trace0]
    by (simp add: http_get_with_retries_def trace0_def)
qed

text \<open>
  The theorem at sources that answer 404 first, 503 and then 404, 503 twice and then
  200, 503 and then no more, and at one no GET reaches.
\<close>

theorem fatal_4xx_witness:
  "retry_get (scripted [404] :: nat \<Rightarrow> unit http_result)
      = (Inl (HTTPError 404), \<lparr>gets = 1, sleeps = []\<rparr>)
   \<and> retry_get transport_down = (Inl ConnectionError, \<lparr>gets = 1, sleeps = []\<rparr>)
   \<and> (\<exists>s b. (scripted [503, 503] :: nat \<Rightarrow> unit http_result) 0 = Response s b
          \<and> (retryable s \<or> 600 \<le> s))
   \<and> 2 \<le> gets (snd (http_get_with_retries (scripted [404] :: nat \<Rightarrow> unit http_result) 3 2))
   \<and> 2 \<le> gets (snd (http_get_with_retries transport_down 3 2))
   \<and> fst (retry_get (scripted [503, 404] :: nat \<Rightarrow> unit http_result)) = Inl (HTTPError 404)
   \<and> gets (snd (retry_get (scripted [503, 404] :: nat \<Rightarrow> unit http_result))) = Suc 1
   \<and> fst (retry_get (scripted_then_down [503])) = Inl ConnectionError
   \<and> gets (snd (retry_get (scripted_then_down [503]))) = Suc 1
   \<and> (\<exists>s b. (scripted [503, 503] :: nat \<Rightarrow> unit http_result) 1 = Response s b
          \<and> (retryable s \<or> 600 \<le> s))
   \<and> Suc 1 < gets (snd (retry_get (scripted [503, 503] :: nat \<Rightarrow> unit http_result)))
   \<and> Suc 1 < gets (snd (http_get_with_retries
                          (scripted [503, 404] :: nat \<Rightarrow> unit http_result) 4 2))
   \<and> fst (http_get_with_retries (scripted [503, 404] :: nat \<Rightarrow> unit http_result) 4 2)
       = Inr (200, None)
   \<and> gets (snd (http_get_with_retries (scripted [503, 404] :: nat \<Rightarrow> unit http_result) 4 2))
       = Suc 2"
proof -
  let ?s404 = "scripted [404] :: nat \<Rightarrow> unit http_result"
  let ?s503 = "scripted [503, 503] :: nat \<Rightarrow> unit http_result"
  let ?s = "scripted [503, 404] :: nat \<Rightarrow> unit http_result"
  have a: "?s404 0 = Response 404 None \<and> (400::int) \<le> 404 \<and> (404::int) < 500 \<and> (404::int) \<noteq> 429"
    by (simp add: scripted_def)
  have a': "(2::int) \<le> 3 \<and> (0::int) \<le> 2 \<and> ?s404 0 = Response 404 None
      \<and> \<not> ((200::int) \<le> 404 \<and> (404::int) < 300)"
    by (simp add: scripted_def)
  have b: "transport_down 0 = Transport_Failure" by (simp add: transport_down_def)
  have b': "(2::int) \<le> 3 \<and> (0::int) \<le> 2 \<and> transport_down 0 = Transport_Failure"
    by (simp add: transport_down_def)
  have c: "1 < gets (snd (retry_get ?s503))" by (simp add: retry_scripted)
  have d: "1 < gets (snd (retry_get ?s)) \<and> ?s 1 = Response 404 None
      \<and> (400::int) \<le> 404 \<and> (404::int) < 500 \<and> (404::int) \<noteq> 429"
    by (simp add: retry_scripted)
  have e: "1 < gets (snd (retry_get (scripted_then_down [503])))
      \<and> scripted_then_down [503] 1 = Transport_Failure"
    by (simp add: retry_scripted)
  have f: "Suc 1 < gets (snd (retry_get ?s503))" by (simp add: retry_scripted)
  have g: "1 < gets (snd (retry_get ?s503)) \<and> ?s503 1 = Response 503 None \<and> retryable 503
      \<and> (1::nat) < 4"
    by (simp add: retry_scripted retryable_def)
  have h: "(0::int) \<le> 2 \<and> 1 < gets (snd (http_get_with_retries ?s 4 2))
      \<and> \<not> (\<exists>s b. ?s 1 = Response s b \<and> 200 \<le> s \<and> s < 300) \<and> int 1 + 1 < 4"
    by (simp add: retry_scripted)
  have i: "(0::int) \<le> 2 \<and> 2 < gets (snd (http_get_with_retries ?s 4 2))
      \<and> ?s 2 = Response 200 None \<and> (200::int) \<le> 200 \<and> (200::int) < 300"
    by (simp add: retry_scripted)
  note t404 = fatal_4xx[where srv = ?s404 and s = 404 and b = None and m = 3 and bo = 2
      and k = 0]
  note tdown = fatal_4xx[where srv = transport_down and s = 404 and b = None and m = 3
      and bo = 2 and k = 0]
  note t503 = fatal_4xx[where srv = ?s503 and s = 503 and b = None and m = 3 and bo = 2
      and k = 1]
  note ts = fatal_4xx[where srv = ?s and s = 404 and b = None and m = 4 and bo = 2 and k = 1]
  note ts2 = fatal_4xx[where srv = ?s and s = 200 and b = None and m = 4 and bo = 2 and k = 2]
  note td = fatal_4xx[where srv = "scripted_then_down [503]" and s = 404 and b = None
      and m = 4 and bo = 2 and k = 1]
  have 1: "retry_get ?s404 = (Inl (HTTPError 404), \<lparr>gets = 1, sleeps = []\<rparr>)"
    by (rule t404[THEN conjunct1, THEN mp, OF a])
  have 2: "retry_get transport_down = (Inl ConnectionError, \<lparr>gets = 1, sleeps = []\<rparr>)"
    by (rule tdown[THEN conjunct2, THEN conjunct1, THEN mp, OF b])
  have 3: "\<exists>s b. ?s503 0 = Response s b \<and> (retryable s \<or> 600 \<le> s)"
    by (rule t503[THEN conjunct2, THEN conjunct2, THEN conjunct1, THEN mp, OF c])
  have 4: "2 \<le> gets (snd (http_get_with_retries ?s404 3 2))"
    by (rule t404[THEN conjunct2, THEN conjunct2, THEN conjunct2, THEN conjunct1, THEN mp, OF a'])
  have 5: "2 \<le> gets (snd (http_get_with_retries transport_down 3 2))"
    by (rule tdown[THEN conjunct2, THEN conjunct2, THEN conjunct2, THEN conjunct2, THEN conjunct1, THEN mp, OF b'])
  have 6: "fst (retry_get ?s) = Inl (HTTPError 404) \<and> gets (snd (retry_get ?s)) = Suc 1"
    by (rule ts[THEN conjunct2, THEN conjunct2, THEN conjunct2, THEN conjunct2, THEN conjunct2, THEN conjunct1, THEN mp, OF d])
  have 7: "fst (retry_get (scripted_then_down [503])) = Inl ConnectionError
      \<and> gets (snd (retry_get (scripted_then_down [503]))) = Suc 1"
    by (rule td[THEN conjunct2, THEN conjunct2, THEN conjunct2, THEN conjunct2, THEN conjunct2, THEN conjunct2, THEN conjunct1, THEN mp, OF e])
  have 8: "\<exists>s b. ?s503 1 = Response s b \<and> (retryable s \<or> 600 \<le> s)"
    by (rule t503[THEN conjunct2, THEN conjunct2, THEN conjunct2, THEN conjunct2, THEN conjunct2, THEN conjunct2, THEN conjunct2, THEN conjunct1, THEN mp, OF f])
  have 9: "Suc 1 < gets (snd (retry_get ?s503))"
    by (rule t503[THEN conjunct2, THEN conjunct2, THEN conjunct2, THEN conjunct2, THEN conjunct2, THEN conjunct2, THEN conjunct2, THEN conjunct2, THEN conjunct1, THEN mp, OF g])
  have 10: "Suc 1 < gets (snd (http_get_with_retries ?s 4 2))"
    by (rule ts[THEN conjunct2, THEN conjunct2, THEN conjunct2, THEN conjunct2, THEN conjunct2, THEN conjunct2, THEN conjunct2, THEN conjunct2, THEN conjunct2, THEN conjunct2, THEN conjunct1, THEN mp, OF h])
  have 11: "fst (http_get_with_retries ?s 4 2) = Inr (200, None)
      \<and> gets (snd (http_get_with_retries ?s 4 2)) = Suc 2"
    by (rule ts2[THEN conjunct2, THEN conjunct2, THEN conjunct2, THEN conjunct2, THEN conjunct2, THEN conjunct2, THEN conjunct2, THEN conjunct2, THEN conjunct2, THEN conjunct2, THEN conjunct2, THEN conjunct1, THEN mp, OF i])
  show ?thesis using 1 2 3 4 5 6 7 8 9 10 11 by (intro conjI) (elim conjE, assumption)+
qed

text \<open>
  Claim C2 as stated fails for SiMEM's helper: a 404 is retried. With three attempts,
  a source that answers 404 and then 200 is asked twice, and the call returns the 200.
\<close>

theorem fatal_4xx_counterexample:
  "http_get_with_retries (scripted [404] :: nat \<Rightarrow> unit http_result) 3 2
     = (Inr (200, None), \<lparr>gets = 2, sleeps = [2]\<rparr>)"
  by (simp add: http_get_with_retries_def scripted_def trace0_def issue_get_def sleep_def
      upto_from_1)

section \<open>Dane: a failing unit\<close>










section \<open>PWT: cache resolution\<close>

text \<open>
  Claim C10. When a local file stands at the expected path:
  \<^item> if the source gives a checksum and the digest of the local file equals it, the
    cache is hit: the local bytes are returned, and \<open>load_pwt\<close> downloads nothing;
  \<^item> if the source gives a checksum and the digests differ, the cache is missed and
    logged as stale, and \<open>load_pwt\<close> downloads the file and stores it;
  \<^item> if the source gives no checksum (none, or an empty one), the local file alone is
    a hit.
\<close>

theorem cache_resolution:
  "fs (cache_path out_dir meta) = Some local \<longrightarrow>
     (checksum meta = Some c \<and> c \<noteq> [] \<and> md5_hexdigest local = c \<longrightarrow>
        maybe_use_cache md5_hexdigest fs out_dir meta = (Some local, [Cache_OK (label meta)])
        \<and> resolve_raw md5_hexdigest download fs out_dir meta True
            = Inr (local, fs, [], [Cache_OK (label meta), Using_cache (label meta)]))
     \<and> (checksum meta = Some c \<and> c \<noteq> [] \<and> md5_hexdigest local \<noteq> c \<longrightarrow>
        maybe_use_cache md5_hexdigest fs out_dir meta = (None, [Cache_stale (label meta)])
        \<and> (download (file_id meta) = Inr raw \<longrightarrow>
             resolve_raw md5_hexdigest download fs out_dir meta True
               = Inr (raw, fs(cache_path out_dir meta \<mapsto> raw), [file_id meta],
                      [Cache_stale (label meta), Downloading (label meta),
                       Saved_raw (cache_path out_dir meta)])))
     \<and> (checksum meta = None \<or> checksum meta = Some [] \<longrightarrow>
        maybe_use_cache md5_hexdigest fs out_dir meta
          = (Some local, [Cache_found_no_checksum (label meta)])
        \<and> resolve_raw md5_hexdigest download fs out_dir meta True
            = Inr (local, fs, [],
                   [Cache_found_no_checksum (label meta), Using_cache (label meta)]))"
  by (cases c) (auto simp: maybe_use_cache_def resolve_raw_def)

text \<open>
  The theorem at a storage that holds the file, with a remote checksum that matches,
  one that does not, and none.
\<close>

theorem cache_resolution_witness:
  "maybe_use_cache toy_digest pwt_storage ''pwt_out'' (pwt_meta (Some ''fff''))
      = (Some ''abc'', [Cache_OK ''pwt110.dta''])
   \<and> resolve_raw toy_digest serve_new pwt_storage ''pwt_out'' (pwt_meta (Some ''fff'')) True
      = Inr (''abc'', pwt_storage, [], [Cache_OK ''pwt110.dta'', Using_cache ''pwt110.dta''])
   \<and> maybe_use_cache toy_digest pwt_storage ''pwt_out'' (pwt_meta (Some ''ff''))
      = (None, [Cache_stale ''pwt110.dta''])
   \<and> resolve_raw toy_digest serve_new pwt_storage ''pwt_out'' (pwt_meta (Some ''ff'')) True
      = Inr (''new'', pwt_storage(''pwt_out/pwt110.dta'' \<mapsto> ''new''), [7],
             [Cache_stale ''pwt110.dta'', Downloading ''pwt110.dta'',
              Saved_raw ''pwt_out/pwt110.dta''])
   \<and> maybe_use_cache toy_digest pwt_storage ''pwt_out'' (pwt_meta None)
      = (Some ''abc'', [Cache_found_no_checksum ''pwt110.dta''])
   \<and> resolve_raw toy_digest serve_new pwt_storage ''pwt_out'' (pwt_meta None) True
      = Inr (''abc'', pwt_storage, [],
             [Cache_found_no_checksum ''pwt110.dta'', Using_cache ''pwt110.dta''])"
proof -
  have p: "cache_path ''pwt_out'' (pwt_meta c) = ''pwt_out/pwt110.dta''" for c
    by code_simp
  have f: "pwt_storage ''pwt_out/pwt110.dta'' = Some ''abc''"
    by (simp add: pwt_storage_def)
  have d: "toy_digest ''abc'' = ''fff''" by code_simp
  have m: "label (pwt_meta c) = ''pwt110.dta''" "checksum (pwt_meta c) = c"
    "file_id (pwt_meta c) = 7" for c
    by (simp_all add: pwt_meta_def)
  note hit = cache_resolution[of pwt_storage "''pwt_out''" "pwt_meta (Some ''fff'')" "''abc''"
      "''fff''" toy_digest serve_new "''new''"]
  note stale = cache_resolution[of pwt_storage "''pwt_out''" "pwt_meta (Some ''ff'')" "''abc''"
      "''ff''" toy_digest serve_new "''new''"]
  note nosum = cache_resolution[of pwt_storage "''pwt_out''" "pwt_meta None" "''abc''"
      "''ff''" toy_digest serve_new "''new''"]
  show ?thesis using hit stale nosum by (simp add: f d m p serve_new_def)
qed

section \<open>SiMEM: the column subset\<close>

lemma filter_cname_unique:
  "distinct (map cname df) \<Longrightarrow> c \<in> set (map cname df) \<Longrightarrow>
     filter (\<lambda>col. cname col = c) df = [the (find (\<lambda>col. cname col = c) df)]"
proof (induction df)
  case Nil
  then show ?case by simp
next
  case (Cons a df)
  show ?case
  proof (cases "cname a = c")
    case True
    then have "c \<notin> set (map cname df)" using Cons.prems(1) by auto
    then have "filter (\<lambda>col. cname col = c) df = []" by (auto simp: filter_empty_conv)
    then show ?thesis using True by simp
  next
    case False
    then show ?thesis using Cons by auto
  qed
qed

lemma select_columns_unique:
  "distinct (map cname df) \<Longrightarrow> set keep \<subseteq> set (map cname df) \<Longrightarrow>
     select_columns df keep = map (\<lambda>c. the (find (\<lambda>col. cname col = c) df)) keep"
  by (induction keep) (simp_all add: select_columns_def filter_cname_unique)

lemma find_cname:
  "c \<in> set (map cname df) \<Longrightarrow> cname (the (find (\<lambda>col. cname col = c) df)) = c"
  by (induction df) auto

text \<open>
  Claim C9, as the code has it. For a table whose column names are distinct: the
  requested names are canonicalized with \<open>_snake_case\<close> when renaming is on (and taken
  as they are when it is off); the requested names that are no column are reported in
  one warning and dropped; when at least one requested name is a column, the table
  returned holds exactly the requested columns that are there, in requested order; when
  none is, the table is returned as it is, with all its columns.
\<close>

theorem column_subset:
  "distinct (columns df) \<longrightarrow>
     (let final_cols = map (\<lambda>c. if to_snake then snake_case c else c) subset_cols;
          keep = filter (\<lambda>c. c \<in> set (columns df)) final_cols;
          missing = filter (\<lambda>c. c \<notin> set (columns df)) final_cols
      in fst (subset_columns df subset_cols to_snake)
           = (if keep = [] then df
              else map (\<lambda>c. the (find (\<lambda>col. cname col = c) df)) keep)
         \<and> columns (fst (subset_columns df subset_cols to_snake))
           = (if keep = [] then columns df else keep)
         \<and> snd (subset_columns df subset_cols to_snake)
           = (if missing = [] then [] else [Subset_missing missing]))"
proof
  assume d: "distinct (columns df)"
  define final_cols where "final_cols = map (\<lambda>c. if to_snake then snake_case c else c) subset_cols"
  define keep where "keep = filter (\<lambda>c. c \<in> set (columns df)) final_cols"
  define missing where "missing = filter (\<lambda>c. c \<notin> set (columns df)) final_cols"
  have sub: "set keep \<subseteq> set (map cname df)" by (auto simp: keep_def columns_def)
  have sel: "select_columns df keep = map (\<lambda>c. the (find (\<lambda>col. cname col = c) df)) keep"
    using d sub by (simp add: select_columns_unique columns_def)
  have names: "map cname (map (\<lambda>c. the (find (\<lambda>col. cname col = c) df)) keep) = keep"
    using sub by (induction keep) (simp_all add: find_cname)
  have e: "subset_cols = [] \<Longrightarrow> keep = [] \<and> missing = []"
    by (simp add: keep_def missing_def final_cols_def)
  have 1: "fst (subset_columns df subset_cols to_snake)
           = (if keep = [] then df
              else map (\<lambda>c. the (find (\<lambda>col. cname col = c) df)) keep)"
    using e sel by (simp add: subset_columns_def Let_def keep_def[symmetric] final_cols_def[symmetric])
  have 2: "snd (subset_columns df subset_cols to_snake)
           = (if missing = [] then [] else [Subset_missing missing])"
    using e by (simp add: subset_columns_def Let_def missing_def[symmetric] final_cols_def[symmetric])
  have 3: "columns (fst (subset_columns df subset_cols to_snake))
           = (if keep = [] then columns df else keep)"
    unfolding 1 using names by (simp add: columns_def)
  show "let final_cols = map (\<lambda>c. if to_snake then snake_case c else c) subset_cols;
          keep = filter (\<lambda>c. c \<in> set (columns df)) final_cols;
          missing = filter (\<lambda>c. c \<notin> set (columns df)) final_cols
      in fst (subset_columns df subset_cols to_snake)
           = (if keep = [] then df
              else map (\<lambda>c. the (find (\<lambda>col. cname col = c) df)) keep)
         \<and> columns (fst (subset_columns df subset_cols to_snake))
           = (if keep = [] then columns df else keep)
         \<and> snd (subset_columns df subset_cols to_snake)
           = (if missing = [] then [] else [Subset_missing missing])"
    using 1 2 3 unfolding Let_def keep_def missing_def final_cols_def by blast
qed

lemma snake_examples:
  "snake_case ''Valor'' = ''valor''" "snake_case ''FechaInicio'' = ''fecha_inicio''"
  "snake_case ''Otro'' = ''otro''"
  by code_simp+

text \<open>
  The theorem at a table with the columns \<open>fecha_inicio\<close> and \<open>valor\<close> and the
  request \<open>Valor\<close>, \<open>FechaInicio\<close>, \<open>Otro\<close>.
\<close>

theorem column_subset_witness:
  "columns (fst (subset_columns two_columns [''Valor'', ''FechaInicio'', ''Otro''] True))
     = [''valor'', ''fecha_inicio'']
   \<and> snd (subset_columns two_columns [''Valor'', ''FechaInicio'', ''Otro''] True)
     = [Subset_missing [''otro'']]"
proof -
  have c: "columns two_columns = [''fecha_inicio'', ''valor'']"
    by (simp add: two_columns_def columns_def)
  have d: "distinct (columns two_columns)" unfolding c by simp
  have k: "filter (\<lambda>c. c \<in> set (columns two_columns))
             (map (\<lambda>c. if True then snake_case c else c) [''Valor'', ''FechaInicio'', ''Otro''])
           = [''valor'', ''fecha_inicio'']"
    by (simp add: c snake_examples)
  have m: "filter (\<lambda>c. c \<notin> set (columns two_columns))
             (map (\<lambda>c. if True then snake_case c else c) [''Valor'', ''FechaInicio'', ''Otro''])
           = [''otro'']"
    by (simp add: c snake_examples)
  note t = column_subset[of two_columns True "[''Valor'', ''FechaInicio'', ''Otro'']",
      unfolded Let_def k m, rule_format, OF d]
  show ?thesis using t[THEN conjunct2] by simp
qed

text \<open>
  Claim C9 as stated fails when no requested column is there: the request \<open>Otro\<close> on
  the same table returns both columns, and the intersection of the requested and the
  present columns is empty.
\<close>

theorem column_subset_counterexample:
  "columns (fst (subset_columns two_columns [''Otro''] True))
     = [''fecha_inicio'', ''valor'']
   \<and> snake_case ''Otro'' \<notin> set (columns two_columns)"
  by (simp add: subset_columns_def two_columns_def columns_def snake_examples)

section \<open>SiMEM: the flattener\<close>

lemma fold_first_seen:
  "distinct acc \<Longrightarrow>
     distinct (fold (\<lambda>x acc. if x \<in> set acc then acc else acc @ [x]) xs acc)
     \<and> set (fold (\<lambda>x acc. if x \<in> set acc then acc else acc @ [x]) xs acc) = set acc \<union> set xs"
  by (induction xs arbitrary: acc) auto

lemma first_seen_distinct: "distinct (first_seen xs)"
  using fold_first_seen[of "[]" xs] by (simp add: first_seen_def)

lemma first_seen_set: "set (first_seen xs) = set xs"
  using fold_first_seen[of "[]" xs] by (simp add: first_seen_def)

lemma scenario_flat:
  "normalise_json_ordered ''_'' [(''a'', JDict [(''b'', JNum 1)])] = [(''a_b'', JNum 1)]"
  "normalise_json_ordered ''_'' [(''a'', JDict [(''c'', JNum 2)])] = [(''a_c'', JNum 2)]"
  by (simp_all add: normalise_json_ordered_def dict_update_all_def new_key_def)

text \<open>
  Claim C5, as the code has it. The flattener joins the keys of a path with an
  underscore (\<open>sep="_"\<close>), not a dot. The records \<open>[{"a":{"b":1}}, {"a":{"c":2}}]\<close>
  give the rows \<open>{a_b: 1, a_c: null}\<close> and \<open>{a_b: null, a_c: 2}\<close> with the columns
  \<open>[a_b, a_c]\<close>. For every list of records: a nested object under a key that is not
  empty gives the column \<open>key_subkey\<close>; the columns are the keys of all the flattened
  records in the order in which they are first seen, each once; and a record that has no
  value under a column holds the null marker there.
\<close>

theorem flatten_scenario:
  "flatten_records scenario_records =
     [\<lparr>cname = ''a_b'', ctype = Numeric_dtype, cells = [Num 1, Null]\<rparr>,
      \<lparr>cname = ''a_c'', ctype = Numeric_dtype, cells = [Null, Num 2]\<rparr>]
   \<and> columns (flatten_records scenario_records) = [''a_b'', ''a_c'']
   \<and> row_at (flatten_records scenario_records) 0 = [Num 1, Null]
   \<and> row_at (flatten_records scenario_records) 1 = [Null, Num 2]
   \<and> normalise_json_ordered ''_'' [(k # ks, JDict [(k2, JNum n)])] = [((k # ks) @ ''_'' @ k2, JNum n)]
   \<and> columns (flatten_records records)
       = first_seen (concat (map (\<lambda>r. map fst (normalise_json_ordered ''_'' r)) records))
   \<and> distinct (columns (flatten_records records))
   \<and> set (columns (flatten_records records))
       = (\<Union>r \<in> set records. fst ` set (normalise_json_ordered ''_'' r))
   \<and> map cells (flatten_records records)
       = map (\<lambda>c. map (\<lambda>r. case map_of (normalise_json_ordered ''_'' r) c of
                               None \<Rightarrow> Null
                             | Some v \<Rightarrow> cell_of_json v) records)
           (columns (flatten_records records))"
proof -
  have s: "flatten_records scenario_records =
     [\<lparr>cname = ''a_b'', ctype = Numeric_dtype, cells = [Num 1, Null]\<rparr>,
      \<lparr>cname = ''a_c'', ctype = Numeric_dtype, cells = [Null, Num 2]\<rparr>]"
    by (simp add: flatten_records_def json_normalize_def scenario_records_def scenario_flat
        dataframe_of_dicts_def first_seen_def infer_dtype_def)
  have c: "columns (flatten_records records)
       = first_seen (concat (map (\<lambda>r. map fst (normalise_json_ordered ''_'' r)) records))"
    by (simp add: flatten_records_def json_normalize_def dataframe_of_dicts_def columns_def
        comp_def Let_def)
  have u: "set (columns (flatten_records records))
       = (\<Union>r \<in> set records. fst ` set (normalise_json_ordered ''_'' r))"
    unfolding c first_seen_set by auto
  have m: "map cells (flatten_records records)
       = map (\<lambda>c. map (\<lambda>r. case map_of (normalise_json_ordered ''_'' r) c of
                               None \<Rightarrow> Null
                             | Some v \<Rightarrow> cell_of_json v) records)
           (columns (flatten_records records))"
    unfolding c
    by (simp add: flatten_records_def json_normalize_def dataframe_of_dicts_def comp_def Let_def)
  have n: "normalise_json_ordered ''_'' [(k # ks, JDict [(k2, JNum n)])]
      = [((k # ks) @ ''_'' @ k2, JNum n)]"
    by (simp add: normalise_json_ordered_def dict_update_all_def new_key_def)
  show ?thesis
    unfolding s using c u m n first_seen_distinct
    by (simp add: columns_def row_at_def)
qed

text \<open>Claim C5 as stated fails: the columns of the scenario are not \<open>a.b\<close> and \<open>a.c\<close>.\<close>

theorem flatten_scenario_counterexample:
  "columns (flatten_records scenario_records) \<noteq> [''a.b'', ''a.c'']"
  by (simp add: flatten_records_def json_normalize_def scenario_records_def scenario_flat
        dataframe_of_dicts_def first_seen_def infer_dtype_def columns_def)

section \<open>SiMEM: type coercion\<close>




lemma for_each_column_isl:
  "isl (for_each_column f df) \<longleftrightarrow> (\<exists>col \<in> set df. isl (f col))"
  by (induction df) (auto split: sum.splits)















subsection \<open>Inference threshold\<close>



subsection \<open>Coercion by the declared schema\<close>

text \<open>
  When \<open>_map_types_by_schema\<close> raises: in the step of a column declared \<open>fecha\<close>
  whose conversion is no datetime column (its values carry offsets that differ), and in
  the step of a column whose name several columns of the frame bear, unless it is a text
  column that is not stripped.
\<close>

lemma coerce_column_raises_iff:
  "isl (coerce_column P fmt idx strip_text dup col) \<longleftrightarrow>
     (let declared = map_option snd (map_of idx (norm (cname col)))
      in if declared = Some ''fecha''
         then dup \<or> (fst (to_datetime P fmt col) \<noteq> Datetime64_dtype
                      \<and> fst (to_datetime P fmt col) \<noteq> Datetime64tz_dtype)
         else if declared = Some ''fecha hora'' then dup
         else dup \<and> strip_text)"
proof -
  have d: "(case map_of idx (norm (cname col)) of None \<Rightarrow> None | Some (nm, t) \<Rightarrow> Some t)
      = map_option snd (map_of idx (norm (cname col)))"
    by (cases "map_of idx (norm (cname col))") auto
  show ?thesis
    unfolding coerce_column_def d Let_def dt_accessor_def by auto
qed

lemma map_types_by_schema_raises_iff:
  "isl (map_types_by_schema P fmt df schema_columns to_snake strip_text) \<longleftrightarrow>
     (\<exists>col \<in> set df.
        isl (coerce_column P fmt (schema_index schema_columns) strip_text
               (duplicated df (cname col)) col))"
  unfolding map_types_by_schema_def
  using for_each_column_isl[of "\<lambda>col. coerce_column P fmt (schema_index schema_columns)
      strip_text (duplicated df (cname col)) col" df]
  by (auto split: sum.splits)

text \<open>
  Claim C8 fails in the code. A column declared \<open>fecha\<close> whose two values are valid
  datetimes with the offsets \<open>+01:00\<close> and \<open>-05:00\<close> makes \<open>_map_types_by_schema\<close>
  raise: the conversion is a column of dtype \<open>object\<close>, and \<open>.dt\<close> raises
  \<open>AttributeError\<close> on it. With one offset for both values the function returns the
  calendar dates, and a value that is no date becomes the null marker. Two columns that
  receive the same name by the renaming are both kept under that name: the one case in
  which the claim lets the function raise is one in which it returns.
\<close>

theorem coercion_raises_on_mixed_offsets:
  "map_types_by_schema iso8601 no_text mixed_offset_frame fecha_schema True True
     = Inl AttributeError_dt
   \<and> to_datetime iso8601 no_text (hd mixed_offset_frame)
     = (Object_dtype, [Timestamp_tz 1736463600000000000 60,
                       Timestamp_tz 1736485200000000000 (- 300)])
   \<and> map_types_by_schema iso8601 no_text one_offset_frame fecha_schema True True
     = Inr [\<lparr>cname = ''fecha'', ctype = Object_dtype, cells = [Date 20098, Date 20098]\<rparr>]
   \<and> map_types_by_schema iso8601 no_text bad_value_frame fecha_schema True True
     = Inr [\<lparr>cname = ''fecha'', ctype = Object_dtype, cells = [Date 20098, Null, Null]\<rparr>]
   \<and> map_types_by_schema iso8601 no_text clash_frame clash_schema True True
     = Inr [\<lparr>cname = ''fecha_inicio'', ctype = Object_dtype, cells = [Date 20098]\<rparr>,
            \<lparr>cname = ''fecha_inicio'', ctype = String_dtype, cells = [Str ''x'']\<rparr>]"
  by code_simp

section \<open>SiMEM: the date-range filter\<close>




















section \<open>The wide views\<close>

lemma first_valid_None: "first_valid vs = None \<longleftrightarrow> (\<forall>v. Some v \<notin> set vs)"
proof -
  have "filter (\<lambda>v. v \<noteq> None) vs = [] \<longleftrightarrow> (\<forall>v. Some v \<notin> set vs)"
    unfolding filter_empty_conv by (metis not_None_eq)
  moreover have "first_valid vs = None \<longleftrightarrow> filter (\<lambda>v. v \<noteq> None) vs = []"
  proof (cases "filter (\<lambda>v. v \<noteq> None) vs")
    case Nil
    then show ?thesis by (simp add: first_valid_def)
  next
    case (Cons a list)
    then have "a \<in> set (filter (\<lambda>v. v \<noteq> None) vs)" by simp
    then have "a \<noteq> None" by simp
    then show ?thesis using Cons by (simp add: first_valid_def)
  qed
  ultimately show ?thesis by simp
qed

lemma group_first_None:
  "group_first rows k c = None \<longleftrightarrow> (\<forall>v. (Some k, Some c, Some v) \<notin> set rows)"
  unfolding group_first_def first_valid_None by force

lemma set_agged_groups:
  "set (agged_groups rows) = {(k, c). \<exists>v. (Some k, Some c, Some v) \<in> set rows}"
proof -
  have "set (agged_groups rows)
      = {(k, c). (\<exists>v. (Some k, Some c, v) \<in> set rows) \<and> group_first rows k c \<noteq> None}"
    unfolding agged_groups_def by (auto split: option.splits if_splits)
  also have "\<dots> = {(k, c). \<exists>v. (Some k, Some c, Some v) \<in> set rows}"
    unfolding group_first_None by auto
  finally show ?thesis .
qed

lemma set_index:
  "set (index (pivot_table_first rows)) = {k. \<exists>c v. (Some k, Some c, Some v) \<in> set rows}"
proof -
  have "set (index (pivot_table_first rows)) = fst ` set (agged_groups rows)"
    by (simp add: pivot_table_first_def Let_def)
  also have "\<dots> = {k. \<exists>c v. (Some k, Some c, Some v) \<in> set rows}"
    unfolding set_agged_groups by force
  finally show ?thesis .
qed

lemma set_wide_columns:
  "set (wide_columns (pivot_table_first rows)) = {c. \<exists>k v. (Some k, Some c, Some v) \<in> set rows}"
proof -
  have "set (wide_columns (pivot_table_first rows)) = snd ` set (agged_groups rows)"
    by (simp add: pivot_table_first_def Let_def)
  also have "\<dots> = {c. \<exists>k v. (Some k, Some c, Some v) \<in> set rows}"
    unfolding set_agged_groups by force
  finally show ?thesis .
qed

lemma distinct_index: "distinct (index (pivot_table_first rows))"
  by (simp add: pivot_table_first_def Let_def)

lemma distinct_wide_columns: "distinct (wide_columns (pivot_table_first rows))"
  by (simp add: pivot_table_first_def Let_def)

lemma count_list_distinct:
  "distinct xs \<Longrightarrow> count_list xs x = (if x \<in> set xs then 1 else 0)"
  by (induction xs) auto

lemma count_index:
  "count_list (index (pivot_table_first rows)) k
     = (if \<exists>c v. (Some k, Some c, Some v) \<in> set rows then 1 else 0)"
  using distinct_index[of rows] set_index[of rows]
  by (simp add: count_list_distinct)

lemma cell_at_pivot:
  "cell_at (pivot_table_first rows) k c = group_first rows k c"
proof -
  let ?w = "pivot_table_first rows"
  have cells: "wide_cells ?w = map (\<lambda>k. map (\<lambda>c. group_first rows k c) (wide_columns ?w)) (index ?w)"
    by (simp add: pivot_table_first_def Let_def)
  show ?thesis
  proof (cases "k \<in> set (index ?w)")
    case False
    then have "group_first rows k c = None"
      unfolding set_index group_first_None by blast
    then show ?thesis using False by (simp add: cell_at_def cells map_of_zip_map)
  next
    case True
    show ?thesis
    proof (cases "c \<in> set (wide_columns ?w)")
      case False
      then have "group_first rows k c = None"
        unfolding set_wide_columns group_first_None by blast
      then show ?thesis using True False by (simp add: cell_at_def cells map_of_zip_map)
    next
      case c: True
      then show ?thesis using True by (simp add: cell_at_def cells map_of_zip_map)
    qed
  qed
qed

lemma group_first_first:
  assumes "\<forall>(k', c', v') \<in> set pre. \<not> (k' = Some k \<and> c' = Some c \<and> v' \<noteq> None)"
  shows "group_first (pre @ (Some k, Some c, Some v) # post) k c = Some v"
proof -
  have "filter (\<lambda>v. v \<noteq> None)
          (map (\<lambda>(k', c', v). v) (filter (\<lambda>(k', c', v). k' = Some k \<and> c' = Some c) pre)) = []"
    using assms by (auto simp: filter_empty_conv)
  then show ?thesis by (simp add: group_first_def first_valid_def)
qed

lemma shape_pivot:
  "length (wide_cells (pivot_table_first rows)) = length (index (pivot_table_first rows))
   \<and> list_all (\<lambda>row. length row = length (wide_columns (pivot_table_first rows)))
       (wide_cells (pivot_table_first rows))"
  by (simp add: pivot_table_first_def Let_def list_all_iff)

lemma consolidate_count:
  "count_list (index (consolidate_wide df_long)) d
     = (if \<exists>r \<in> set df_long. date r = Some d \<and> obs_value r \<noteq> None then 1 else 0)"
proof -
  have "(\<exists>c v. (Some d, Some c, Some v)
            \<in> set (map (\<lambda>r. (date r, Some (col_label r), obs_value r)) df_long))
      \<longleftrightarrow> (\<exists>r \<in> set df_long. date r = Some d \<and> obs_value r \<noteq> None)"
  proof
    assume "\<exists>c v. (Some d, Some c, Some v)
            \<in> set (map (\<lambda>r. (date r, Some (col_label r), obs_value r)) df_long)"
    then obtain c v r where "r \<in> set df_long" "date r = Some d" "obs_value r = Some v"
      by (auto simp: image_iff) metis
    then show "\<exists>r \<in> set df_long. date r = Some d \<and> obs_value r \<noteq> None" by auto
  next
    assume "\<exists>r \<in> set df_long. date r = Some d \<and> obs_value r \<noteq> None"
    then obtain r v where r: "r \<in> set df_long" "date r = Some d" "obs_value r = Some v"
      by auto
    then have "(Some d, Some (col_label r), Some v)
        \<in> set (map (\<lambda>r. (date r, Some (col_label r), obs_value r)) df_long)"
      by force
    then show "\<exists>c v. (Some d, Some c, Some v)
            \<in> set (map (\<lambda>r. (date r, Some (col_label r), obs_value r)) df_long)"
      by blast
  qed
  then show ?thesis unfolding consolidate_wide_def count_index by simp
qed

lemma consolidate_cell:
  "cell_at (consolidate_wide df_long) d l
     = first_valid (map obs_value (filter (\<lambda>r. date r = Some d \<and> col_label r = l) df_long))"
  unfolding consolidate_wide_def cell_at_pivot group_first_def
  by (simp add: filter_map comp_def)

lemma consolidate_first:
  assumes "\<forall>r \<in> set pre. \<not> (date r = Some d \<and> col_label r = l \<and> obs_value r \<noteq> None)"
    and "date r0 = Some d" "col_label r0 = l" "obs_value r0 = Some v"
  shows "cell_at (consolidate_wide (pre @ r0 # post)) d l = Some v"
proof -
  have "filter (\<lambda>v. v \<noteq> None)
          (map obs_value (filter (\<lambda>r. date r = Some d \<and> col_label r = l) pre)) = []"
    using assms(1) by (auto simp: filter_empty_conv)
  then show ?thesis
    unfolding consolidate_cell using assms(2-4) by (simp add: first_valid_def)
qed

lemma obs_fields:
  "date (obs d v) = Some d" "obs_value (obs d v) = v" "col_label (obs d v) = ''TRM :: series''"
  by (simp_all add: obs_def col_label_def)

text \<open>
  Claim C7, as the code has it. In the wide view of \<open>consolidate\<close>, and in every
  table \<open>pivot_table\<close> builds with the \<open>first\<close> aggregation (the view of
  \<open>_build_views\<close> too):
  \<^item> an entity value has exactly one row when at least one of its rows has a value that
    is not null, and no row otherwise; the rows with a null key are left out;
  \<^item> the cell of an entity and a series label holds the first value that is not null
    among the rows of that pair, in row order, and the null marker when there is none:
    when a pair occurs more than once, the first non-null value wins, whatever follows,
    and nothing is logged;
  \<^item> the series labels are distinct, and every row has exactly one cell per series
    column.
\<close>

theorem wide_pivot_first:
  "count_list (index (consolidate_wide df_long)) d
     = (if \<exists>r \<in> set df_long. date r = Some d \<and> obs_value r \<noteq> None then 1 else 0)
   \<and> cell_at (consolidate_wide df_long) d l
     = first_valid (map obs_value (filter (\<lambda>r. date r = Some d \<and> col_label r = l) df_long))
   \<and> ((\<forall>r \<in> set pre. \<not> (date r = Some d \<and> col_label r = l \<and> obs_value r \<noteq> None))
        \<and> date r0 = Some d \<and> col_label r0 = l \<and> obs_value r0 = Some v \<longrightarrow>
      cell_at (consolidate_wide (pre @ r0 # post)) d l = Some v)
   \<and> distinct (index (consolidate_wide df_long))
   \<and> distinct (wide_columns (consolidate_wide df_long))
   \<and> length (wide_cells (consolidate_wide df_long)) = length (index (consolidate_wide df_long))
   \<and> list_all (\<lambda>row. length row = length (wide_columns (consolidate_wide df_long)))
        (wide_cells (consolidate_wide df_long))
   \<and> count_list (index (pivot_table_first rows)) k
     = (if \<exists>c v. (Some k, Some c, Some v) \<in> set rows then 1 else 0)
   \<and> cell_at (pivot_table_first rows) k c = group_first rows k c
   \<and> distinct (index (vista_figura var_labels var_cols df))
   \<and> cell_at (vista_figura var_labels var_cols df) key y
     = group_first (map (\<lambda>(i, c, y, code, v). (entity_key var_labels i c code, y, v))
                      (melt var_cols df)) key y"
proof -
  have f: "(\<forall>r \<in> set pre. \<not> (date r = Some d \<and> col_label r = l \<and> obs_value r \<noteq> None))
        \<and> date r0 = Some d \<and> col_label r0 = l \<and> obs_value r0 = Some v \<longrightarrow>
      cell_at (consolidate_wide (pre @ r0 # post)) d l = Some v"
    using consolidate_first[of pre d l r0 v post] by blast
  have s: "length (wide_cells (consolidate_wide df_long)) = length (index (consolidate_wide df_long))
     \<and> list_all (\<lambda>row. length row = length (wide_columns (consolidate_wide df_long)))
        (wide_cells (consolidate_wide df_long))"
    unfolding consolidate_wide_def by (rule shape_pivot)
  have d1: "distinct (index (consolidate_wide df_long))"
    and d2: "distinct (wide_columns (consolidate_wide df_long))"
    unfolding consolidate_wide_def by (rule distinct_index, rule distinct_wide_columns)
  have p1: "distinct (index (vista_figura var_labels var_cols df))"
    unfolding vista_figura_def by (rule distinct_index)
  have p2: "cell_at (vista_figura var_labels var_cols df) key y
     = group_first (map (\<lambda>(i, c, y, code, v). (entity_key var_labels i c code, y, v))
                      (melt var_cols df)) key y"
    unfolding vista_figura_def by (rule cell_at_pivot)
  show ?thesis
    using consolidate_count[of df_long d] consolidate_cell[of df_long d l] f s d1 d2
      count_index[of rows k] cell_at_pivot[of rows k c] p1 p2
    by blast
qed

text \<open>
  The theorem at a long table where the date 3 has the values null, 5 and 9 for one
  series.
\<close>

theorem wide_pivot_first_witness:
  "cell_at (consolidate_wide [obs 3 None, obs 3 (Some 5), obs 3 (Some 9), obs 2 (Some 1)])
     3 ''TRM :: series'' = Some 5
   \<and> count_list (index (consolidate_wide
        [obs 3 None, obs 3 (Some 5), obs 3 (Some 9), obs 2 (Some 1)])) 3 = 1"
proof -
  note t = wide_pivot_first[of "[obs 3 None] @ obs 3 (Some 5) # [obs 3 (Some 9), obs 2 (Some 1)]"
      3 "''TRM :: series''" "[obs 3 None]" "obs 3 (Some 5)" 5 "[obs 3 (Some 9), obs 2 (Some 1)]"]
  have h: "(\<forall>r \<in> set [obs 3 None]. \<not> (date r = Some 3 \<and> col_label r = ''TRM :: series''
              \<and> obs_value r \<noteq> None))
        \<and> date (obs 3 (Some 5)) = Some 3 \<and> col_label (obs 3 (Some 5)) = ''TRM :: series''
        \<and> obs_value (obs 3 (Some 5)) = Some 5"
    by (simp add: obs_fields)
  have e: "\<exists>r \<in> set ([obs 3 None] @ obs 3 (Some 5) # [obs 3 (Some 9), obs 2 (Some 1)]).
             date r = Some 3 \<and> obs_value r \<noteq> None"
    by (simp add: obs_fields)
  have 1: "cell_at (consolidate_wide
        ([obs 3 None] @ obs 3 (Some 5) # [obs 3 (Some 9), obs 2 (Some 1)]))
     3 ''TRM :: series'' = Some 5"
    using t h by blast
  have 2: "count_list (index (consolidate_wide
        ([obs 3 None] @ obs 3 (Some 5) # [obs 3 (Some 9), obs 2 (Some 1)]))) 3 = 1"
    using t e by presburger
  show ?thesis using 1 2 by simp
qed

text \<open>
  Claim C7 as stated fails. The date 1, whose only value is null, has no row in the
  wide table. And for the date 3, whose first row has a null value, the cell holds the
  5 of the second row.
\<close>

theorem wide_pivot_first_counterexample:
  "date (obs 1 None) = Some 1
   \<and> count_list (index (consolidate_wide [obs 1 None, obs 2 (Some 7)])) 1 = 0
   \<and> obs_value (hd [obs 3 None, obs 3 (Some 5)]) = None
   \<and> cell_at (consolidate_wide [obs 3 None, obs 3 (Some 5)]) 3 ''TRM :: series'' = Some 5"
  by (simp add: consolidate_count consolidate_cell obs_fields first_valid_def)

end
